theory Spec2Isabelle
  imports Main "HOL-Library.Word" "HOL-Library.Sublist" "HOL-Library.Char_ord"
    "HOL-Library.List_Lexorder"
begin

unbundle bit_operations_syntax

section \<open>Shared primitives\<close>

subsection \<open>Python errors\<close>

text \<open>
  The exceptions the modelled code can raise. A function that may raise returns
  \<open>py_error + 'a\<close>, with \<open>Inl\<close> for the exception.
\<close>

datatype py_error =
  IndexError | KeyError | ValueError | TypeError | AttributeError
  | OverflowError | NotImplementedError | ConnectionRefusedError

subsection \<open>Quadstate (\<^verbatim>\<open>_shared/enums.py\<close>)\<close>

text \<open>
  \<^verbatim>\<open>Quadstate\<close> is an \<^verbatim>\<open>IntFlag\<close>; its members carry the integer values built from
  \<^verbatim>\<open>_FALSE = 0b00\<close>, \<^verbatim>\<open>_TRUE = 0b01\<close> and \<^verbatim>\<open>_MAYBE = 0b10\<close>.
\<close>

definition FALSE_bits :: int where "FALSE_bits = 0"
definition TRUE_bits :: int where "TRUE_bits = 1"
definition MAYBE_bits :: int where "MAYBE_bits = 2"

datatype Quadstate = AbsolutelyTrue | MaybeTrue | AbsolutelyFalse | MaybeFalse

fun quad_value :: "Quadstate \<Rightarrow> int" where
  "quad_value AbsolutelyTrue = TRUE_bits"
| "quad_value MaybeTrue = TRUE_bits OR MAYBE_bits"
| "quad_value AbsolutelyFalse = FALSE_bits"
| "quad_value MaybeFalse = FALSE_bits OR MAYBE_bits"

text \<open>\<^verbatim>\<open>__bool__\<close>: \<^verbatim>\<open>bool(self.value & _TRUE)\<close>; a Python int is true when it is not zero.\<close>

definition quad_bool :: "Quadstate \<Rightarrow> bool" where
  "quad_bool q = (quad_value q AND TRUE_bits \<noteq> 0)"

text \<open>\<^verbatim>\<open>is_certain\<close>: \<^verbatim>\<open>not self.value & _MAYBE\<close>, which Python reads as \<^verbatim>\<open>not (self.value & _MAYBE)\<close>.\<close>

definition is_certain :: "Quadstate \<Rightarrow> bool" where
  "is_certain q = (\<not> (quad_value q AND MAYBE_bits \<noteq> 0))"

subsection \<open>clamp (\<^verbatim>\<open>_shared/helpers_native.py\<close>)\<close>

text \<open>
  All callers modelled here pass Python ints, so the values are \<open>int\<close> and the
  \<^verbatim>\<open>int(...)\<close> around each call is the identity.
\<close>

definition clamp :: "int \<Rightarrow> int \<Rightarrow> int \<Rightarrow> int" where
  "clamp minimum val maximum =
     (let (minimum', maximum') =
            (if minimum > maximum then (maximum, minimum) else (minimum, maximum))
      in max minimum' (min val maximum'))"

subsection \<open>Strings and integers of the interpreter\<close>

text \<open>
  Strings are byte strings here; the functions below are the ASCII behaviour of the
  Python built-ins the modelled code calls.
\<close>

definition startswith :: "string \<Rightarrow> string \<Rightarrow> bool" where
  "startswith s p = prefix p s"

definition lower_char :: "char \<Rightarrow> char" where
  "lower_char c =
     (let n = (of_char c :: nat) in if 65 \<le> n \<and> n \<le> 90 then char_of (n + 32) else c)"

definition py_lower :: "string \<Rightarrow> string" where
  "py_lower s = map lower_char s"

definition digit_val :: "char \<Rightarrow> nat option" where
  "digit_val c =
     (let n = (of_char c :: nat) in if 48 \<le> n \<and> n \<le> 57 then Some (n - 48) else None)"

text \<open>The digits after the first one: a digit, or an underscore followed by a digit.\<close>

fun parse_digits :: "nat \<Rightarrow> string \<Rightarrow> nat option" where
  "parse_digits acc [] = Some acc"
| "parse_digits acc [c] =
     (case digit_val c of None \<Rightarrow> None | Some v \<Rightarrow> Some (10 * acc + v))"
| "parse_digits acc (c # d # ds) =
     (if c = CHR ''_'' then
        (case digit_val d of None \<Rightarrow> None | Some v \<Rightarrow> parse_digits (10 * acc + v) ds)
      else
        (case digit_val c of None \<Rightarrow> None | Some v \<Rightarrow> parse_digits (10 * acc + v) (d # ds)))"

text \<open>
  The interpreter refuses a decimal string of more than 4300 digits (the default of
  \<^verbatim>\<open>sys.set_int_max_str_digits\<close>); underscores do not count.
\<close>

definition int_max_str_digits :: nat where
  "int_max_str_digits = 4300"

definition py_nat :: "string \<Rightarrow> nat option" where
  "py_nat s =
     (if length (filter (\<lambda>c. c \<noteq> CHR ''_'') s) > int_max_str_digits then None
      else
        (case s of [] \<Rightarrow> None
         | c # cs \<Rightarrow> (case digit_val c of None \<Rightarrow> None | Some v \<Rightarrow> parse_digits v cs)))"

text \<open>The whitespace that \<^verbatim>\<open>int\<close> skips around the number in an ASCII string.\<close>

definition is_space :: "char \<Rightarrow> bool" where
  "is_space c = ((of_char c :: nat) \<in> {9, 10, 11, 12, 13, 32})"

definition py_strip :: "string \<Rightarrow> string" where
  "py_strip s = rev (dropWhile is_space (rev (dropWhile is_space s)))"

text \<open>
  \<^verbatim>\<open>int(s)\<close> for an ASCII string in base ten: surrounding whitespace, an optional
  sign, digits with single underscores between them, at most 4300 digits. \<open>None\<close> is
  Python's \<^verbatim>\<open>ValueError\<close>.
\<close>

definition py_int :: "string \<Rightarrow> int option" where
  "py_int s =
     (case py_strip s of [] \<Rightarrow> None
      | c # cs \<Rightarrow>
          if c = CHR ''-'' then map_option (\<lambda>n. - int n) (py_nat cs)
          else if c = CHR ''+'' then map_option int (py_nat cs)
          else map_option int (py_nat (c # cs)))"

section \<open>Chat messages (\<^verbatim>\<open>chat/chatmsg.py\<close>)\<close>

text \<open>
  The fields of \<^verbatim>\<open>ChatMessage\<close> that the modelled code reads. \<open>tags\<close> is the
  \<^verbatim>\<open>dict[str, str]\<close> of protocol metadata.
\<close>

record chat_message =
  user :: string
  channel :: string
  message :: string
  tags :: "string \<rightharpoonup> string"

section \<open>Actionsets (\<^verbatim>\<open>actionsets/actionset.py\<close>, \<^verbatim>\<open>actionsets/subclasses/base_multikey.py\<close>)\<close>

datatype INPUT_TYPE = PRESS_KEY | HOLD_KEY | RELEASE_KEY

text \<open>\<^verbatim>\<open>INPUT_TYPE\<close> is an \<^verbatim>\<open>IntEnum\<close>: \<^verbatim>\<open>PRESS_KEY = 1\<close>, \<^verbatim>\<open>HOLD_KEY = -1\<close>, \<^verbatim>\<open>RELEASE_KEY = 0\<close>.\<close>

fun input_type_value :: "INPUT_TYPE \<Rightarrow> int" where
  "input_type_value PRESS_KEY = 1"
| "input_type_value HOLD_KEY = - 1"
| "input_type_value RELEASE_KEY = 0"

text \<open>\<^verbatim>\<open>VerbParamDict\<close>: all six keys are required.\<close>

record verb_param =
  key :: string
  duration :: int
  min_time :: int
  max_time :: int
  delay :: int
  input_type :: INPUT_TYPE

text \<open>\<^verbatim>\<open>FuncArgsDict\<close>, the keyword arguments handed to the input handler.\<close>

record func_args =
  arg_key :: string
  arg_delay :: int
  arg_duration :: int

text \<open>
  The instance variables of a \<^verbatim>\<open>MultiKey_BaseActionset\<close> that translation reads.
  \<open>translate_verb_parameters_to_key\<close> is the method that each subclass implements;
  it may raise, and it may return \<^verbatim>\<open>None\<close>.
\<close>

record actionset =
  action_prefix :: string
  player_index :: int
  verb_dict :: "string \<rightharpoonup> verb_param list"
  macro_dict :: "string \<rightharpoonup> verb_param list"
  translate_verb_parameters_to_key :: "verb_param \<Rightarrow> py_error + string option"

text \<open>The base class: \<^verbatim>\<open>raise NotImplementedError\<close>.\<close>

definition base_translate_verb_parameters_to_key :: "verb_param \<Rightarrow> py_error + string option" where
  "base_translate_verb_parameters_to_key vp = Inl NotImplementedError"

text \<open>
  \<^verbatim>\<open>Keyboard_Actionset\<close>: \<^verbatim>\<open>key_dict[key]\<close> with \<^verbatim>\<open>KeyError\<close> turned into \<^verbatim>\<open>None\<close>, then
  \<^verbatim>\<open>key_tuple[self.player_index]\<close>, which raises \<^verbatim>\<open>IndexError\<close> out of range (a negative
  index counts from the end).
\<close>

definition keyboard_translate_verb_parameters_to_key ::
  "(string \<rightharpoonup> string list) \<Rightarrow> int \<Rightarrow> verb_param \<Rightarrow> py_error + string option" where
  "keyboard_translate_verb_parameters_to_key key_dict pidx vp =
     (case key_dict (key vp) of
        None \<Rightarrow> Inr None
      | Some key_tuple \<Rightarrow>
          (let n = int (length key_tuple); j = (if pidx < 0 then n + pidx else pidx)
           in if 0 \<le> j \<and> j < n then Inr (Some (key_tuple ! nat j)) else Inl IndexError))"

text \<open>\<^verbatim>\<open>Gamepad_Actionset\<close>: \<^verbatim>\<open>self.key_dict.get(key)\<close>.\<close>

definition gamepad_translate_verb_parameters_to_key ::
  "(string \<rightharpoonup> string) \<Rightarrow> verb_param \<Rightarrow> py_error + string option" where
  "gamepad_translate_verb_parameters_to_key key_dict vp = Inr (key_dict (key vp))"

text \<open>\<^verbatim>\<open>Actionset.message_is_command\<close>.\<close>

definition message_is_command :: "actionset \<Rightarrow> chat_message \<Rightarrow> bool" where
  "message_is_command a msg = startswith (message msg) (action_prefix a)"

text \<open>
  \<^verbatim>\<open>int(regex_result[i]) if regex_result[i] else 0\<close>. The conversion stands outside the
  \<^verbatim>\<open>try\<close> block, so its \<^verbatim>\<open>ValueError\<close> would leave the function.
\<close>

definition param_int :: "string \<Rightarrow> py_error + int" where
  "param_int s =
     (if s = [] then Inr 0
      else (case py_int s of None \<Rightarrow> Inl ValueError | Some n \<Rightarrow> Inr n))"

text \<open>Lookup order: \<^verbatim>\<open>self.verb_dict.get(verb, self.macro_dict.get(verb, None))\<close>.\<close>

definition lookup_verb :: "actionset \<Rightarrow> string \<Rightarrow> verb_param list option" where
  "lookup_verb a verb =
     (case verb_dict a verb of Some l \<Rightarrow> Some l | None \<Rightarrow> macro_dict a verb)"

text \<open>
  One pass of the inner \<^verbatim>\<open>for verb_param in verb_param_list\<close> loop: the
  \<^verbatim>\<open>function_args\<close> it appends, or the exception it raises (a \<^verbatim>\<open>None\<close> key raises
  \<^verbatim>\<open>TypeError\<close>).
\<close>

definition sub_action ::
  "actionset \<Rightarrow> int \<Rightarrow> int \<Rightarrow> int \<Rightarrow> verb_param \<Rightarrow> py_error + func_args" where
  "sub_action a param_delay param_duration inherent_duration vp =
     (case translate_verb_parameters_to_key a vp of
        Inl e \<Rightarrow> Inl e
      | Inr None \<Rightarrow> Inl TypeError
      | Inr (Some k) \<Rightarrow>
          (let dly = clamp 0 (param_delay + delay vp) (max_time vp);
               dur =
                 (if input_type vp = PRESS_KEY then
                    (if param_duration \<noteq> 0 then
                       clamp (min_time vp)
                         (param_duration + (duration vp - inherent_duration))
                         (max_time vp - dly)
                     else clamp (min_time vp) (duration vp) (max_time vp - dly))
                  else input_type_value (input_type vp))
           in Inr \<lparr>arg_key = k, arg_delay = dly, arg_duration = dur\<rparr>))"

text \<open>
  The inner loop. It returns the exception that ended it, if any, and \<^verbatim>\<open>args_list\<close>
  as it stands then: what earlier passes appended stays appended.
\<close>

fun sub_actions ::
  "actionset \<Rightarrow> int \<Rightarrow> int \<Rightarrow> int \<Rightarrow> verb_param list \<Rightarrow> func_args list
   \<Rightarrow> py_error option \<times> func_args list" where
  "sub_actions a pd pdur inh [] args = (None, args)"
| "sub_actions a pd pdur inh (vp # vps) args =
     (case sub_action a pd pdur inh vp of
        Inl e \<Rightarrow> (Some e, args)
      | Inr fa \<Rightarrow> sub_actions a pd pdur inh vps (args @ [fa]))"

text \<open>
  The body of the \<^verbatim>\<open>try\<close> block for one regex result. An unknown verb is
  \<^verbatim>\<open>continue\<close>; an empty parameter list raises \<^verbatim>\<open>IndexError\<close> at
  \<^verbatim>\<open>verb_param_list[0]\<close>.
\<close>

definition verb_body ::
  "actionset \<Rightarrow> string \<Rightarrow> int \<Rightarrow> int \<Rightarrow> func_args list \<Rightarrow> py_error option \<times> func_args list" where
  "verb_body a verb pd pdur args =
     (case lookup_verb a verb of
        None \<Rightarrow> (None, args)
      | Some verb_param_list \<Rightarrow>
          (case verb_param_list of
             [] \<Rightarrow> (Some IndexError, args)
           | vp0 # _ \<Rightarrow> sub_actions a pd pdur (duration vp0) verb_param_list args))"

text \<open>\<^verbatim>\<open>except (IndexError, TypeError, AttributeError, KeyError)\<close>: log and \<^verbatim>\<open>continue\<close>.\<close>

definition caught :: "py_error \<Rightarrow> bool" where
  "caught e = (e = IndexError \<or> e = TypeError \<or> e = AttributeError \<or> e = KeyError)"

definition translate_verb ::
  "actionset \<Rightarrow> string \<Rightarrow> int \<Rightarrow> int \<Rightarrow> func_args list \<Rightarrow> py_error + func_args list" where
  "translate_verb a verb pd pdur args =
     (case verb_body a verb pd pdur args of
        (None, args') \<Rightarrow> Inr args'
      | (Some e, args') \<Rightarrow> if caught e then Inr args' else Inl e)"

text \<open>
  The outer loop over \<^verbatim>\<open>VERB_DELAY_DURATION_REGEX.findall(message.lower())\<close>; each regex
  result is the triple of the verb, the delay digits and the duration digits.
\<close>

type_synonym regex_result = "string \<times> string \<times> string"

fun translate_regex_results ::
  "actionset \<Rightarrow> regex_result list \<Rightarrow> func_args list \<Rightarrow> py_error + func_args list" where
  "translate_regex_results a [] args = Inr args"
| "translate_regex_results a ((verb, g1, g2) # rest) args =
     (case param_int g1 of
        Inl e \<Rightarrow> Inl e
      | Inr pd \<Rightarrow>
          (case param_int g2 of
             Inl e \<Rightarrow> Inl e
           | Inr pdur \<Rightarrow>
               (case translate_verb a verb pd pdur args of
                  Inl e \<Rightarrow> Inl e
                | Inr args' \<Rightarrow> translate_regex_results a rest args')))"

text \<open>
  \<^verbatim>\<open>translate_message_contents_to_args_list\<close>. The regular expression engine is the
  interpreter's; \<open>findall\<close> stands for \<^verbatim>\<open>VERB_DELAY_DURATION_REGEX.findall\<close>.
\<close>

definition translate_message_contents_to_args_list ::
  "(string \<Rightarrow> regex_result list) \<Rightarrow> actionset \<Rightarrow> string \<Rightarrow> py_error + func_args list" where
  "translate_message_contents_to_args_list findall a msg_text =
     translate_regex_results a (findall (py_lower msg_text)) []"

text \<open>
  A queued action is a \<^verbatim>\<open>partial\<close>: the input handler's \<^verbatim>\<open>press_multiple_Keys\<close> bound to
  the player index and the argument list, or \<^verbatim>\<open>sleep\<close> bound to the empty-queue pause.
\<close>

datatype action = press_multiple_Keys int "func_args list" | sleep_EMPTY_QUEUE

definition build_partial ::
  "(string \<Rightarrow> regex_result list) \<Rightarrow> actionset \<Rightarrow> string \<Rightarrow> py_error + action option" where
  "build_partial findall a msg_text =
     (case translate_message_contents_to_args_list findall a msg_text of
        Inl e \<Rightarrow> Inl e
      | Inr args_list \<Rightarrow>
          if length args_list = 0 then Inr None
          else Inr (Some (press_multiple_Keys (player_index a) args_list)))"

definition translate_user_message_to_action ::
  "(string \<Rightarrow> regex_result list) \<Rightarrow> actionset \<Rightarrow> chat_message \<Rightarrow> py_error + action option" where
  "translate_user_message_to_action findall a msg =
     (if message_is_command a msg then build_partial findall a (message msg) else Inr None)"

subsection \<open>An example actionset\<close>

text \<open>
  A gamepad-style actionset with the single verb \<^verbatim>\<open>+left\<close>, whose one sub-action has
  \<^verbatim>\<open>min_time=50\<close>, \<^verbatim>\<open>max_time=500\<close>, default duration 100 and default delay 0.
\<close>

definition example_verb_param :: verb_param where
  "example_verb_param =
     \<lparr>key = ''left'', duration = 100, min_time = 50, max_time = 500, delay = 0,
      input_type = PRESS_KEY\<rparr>"

definition example_actionset :: actionset where
  "example_actionset =
     \<lparr>action_prefix = ''+'', player_index = 0,
      verb_dict = [''+left'' \<mapsto> [example_verb_param]],
      macro_dict = Map.empty,
      translate_verb_parameters_to_key =
        gamepad_translate_verb_parameters_to_key [''left'' \<mapsto> ''DPAD_LEFT'']\<rparr>"

section \<open>User lists (\<^verbatim>\<open>userdata/userlist.py\<close>)\<close>

subsection \<open>String helpers\<close>

text \<open>\<^verbatim>\<open>sub in s\<close> for strings.\<close>

fun str_contains :: "string \<Rightarrow> string \<Rightarrow> bool" where
  "str_contains sub [] = (sub = [])"
| "str_contains sub (c # cs) = (prefix sub (c # cs) \<or> str_contains sub cs)"

text \<open>\<^verbatim>\<open>s.split(sep)\<close> with a one-character separator: never an empty list.\<close>

fun py_split :: "char \<Rightarrow> string \<Rightarrow> string list" where
  "py_split sep [] = [[]]"
| "py_split sep (c # cs) =
     (if c = sep then [] # py_split sep cs
      else (case py_split sep cs of [] \<Rightarrow> [[c]] | w # ws \<Rightarrow> (c # w) # ws))"

text \<open>\<^verbatim>\<open>msg.tags.get(k, d)\<close>.\<close>

definition tags_get :: "chat_message \<Rightarrow> string \<Rightarrow> string \<Rightarrow> string" where
  "tags_get msg k d = (case tags msg k of None \<Rightarrow> d | Some v \<Rightarrow> v)"

subsection \<open>Special groups\<close>

text \<open>
  \<^verbatim>\<open>SpecialGroupsContainer\<close> holds thirteen sets of channel names, reachable as attributes
  and, through \<^verbatim>\<open>mapping\<close>, by their tokens; both name the same set objects. The container
  is a function from the group to its set; \<open>all_groups\<close> is the insertion order of
  \<^verbatim>\<open>mapping\<close>.
\<close>

datatype group =
  broadcaster | mods | vips | subs | tier3subs | tier2subs | tier1subs
  | partners | founders | staff | prime | turbo | users

definition all_groups :: "group list" where
  "all_groups =
     [broadcaster, mods, vips, subs, tier3subs, tier2subs, tier1subs,
      partners, founders, staff, prime, turbo, users]"

fun group_token :: "group \<Rightarrow> string" where
  "group_token broadcaster = ''$broadcaster''"
| "group_token mods = ''$mods''"
| "group_token vips = ''$vips''"
| "group_token subs = ''$subs''"
| "group_token tier3subs = ''$tier3subs''"
| "group_token tier2subs = ''$tier2subs''"
| "group_token tier1subs = ''$tier1subs''"
| "group_token partners = ''$partners''"
| "group_token founders = ''$founders''"
| "group_token staff = ''$staff''"
| "group_token prime = ''$prime''"
| "group_token turbo = ''$turbo''"
| "group_token users = ''$users''"

text \<open>\<^verbatim>\<open>mapping[group_name]\<close>: the group of a token, \<open>None\<close> where Python raises \<^verbatim>\<open>KeyError\<close>.\<close>

definition mapping_lookup :: "string \<Rightarrow> group option" where
  "mapping_lookup group_name = find (\<lambda>g. group_token g = group_name) all_groups"

subsection \<open>The list\<close>

record userlist =
  cache_users :: bool
  known_users :: "string set"
  included_users :: "string set"
  fixed_users :: "string set"
  special_groups :: "group \<Rightarrow> string set"

text \<open>\<^verbatim>\<open>UserList(cache_users)\<close>.\<close>

definition new_userlist :: "bool \<Rightarrow> userlist" where
  "new_userlist c =
     \<lparr>cache_users = c, known_users = {}, included_users = {}, fixed_users = {},
      special_groups = (\<lambda>g. {})\<rparr>"

text \<open>
  The checks that look for a badge: the group has channels, the message's channel is one of
  them, and the text is part of the \<^verbatim>\<open>badges\<close> tag.
\<close>

definition badge_check :: "userlist \<Rightarrow> group \<Rightarrow> string \<Rightarrow> chat_message \<Rightarrow> bool" where
  "badge_check ul g badge msg =
     (if special_groups ul g \<noteq> {} then
        (if channel msg \<in> special_groups ul g
         then str_contains badge (tags_get msg ''badges'' '''')
         else False)
      else False)"

text \<open>The checks that read a flag tag (\<^verbatim>\<open>mod\<close>, \<^verbatim>\<open>subscriber\<close>).\<close>

definition flag_check :: "userlist \<Rightarrow> group \<Rightarrow> string \<Rightarrow> chat_message \<Rightarrow> bool" where
  "flag_check ul g flag msg =
     (if special_groups ul g \<noteq> {} then
        (if channel msg \<in> special_groups ul g
         then tags_get msg flag ''0'' \<noteq> ''0''
         else False)
      else False)"

definition is_broadcaster :: "userlist \<Rightarrow> chat_message \<Rightarrow> bool" where
  "is_broadcaster ul msg = badge_check ul broadcaster ''broadcaster'' msg"

definition is_mod :: "userlist \<Rightarrow> chat_message \<Rightarrow> bool" where
  "is_mod ul msg = flag_check ul mods ''mod'' msg"

definition is_vip :: "userlist \<Rightarrow> chat_message \<Rightarrow> bool" where
  "is_vip ul msg = badge_check ul vips ''vip'' msg"

definition is_subscribed :: "userlist \<Rightarrow> chat_message \<Rightarrow> bool" where
  "is_subscribed ul msg = flag_check ul subs ''subscriber'' msg"

text \<open>
  \<^verbatim>\<open>int(int(badge_split[1]) / 1000)\<close>: a float division, then truncation towards zero. The
  result is only compared with 0, 2 and 3, and for these the rounded float quotient and
  the exact one agree, so the tier is the truncated integer quotient; the division raises
  \<^verbatim>\<open>OverflowError\<close> when the quotient is beyond the float range.
\<close>

definition tier_of_code :: "int \<Rightarrow> py_error + int" where
  "tier_of_code n =
     (if \<bar>n\<bar> \<ge> 1000 * (2 ^ 1024 - 2 ^ 970) then Inl OverflowError
      else Inr (if 0 \<le> n then n div 1000 else - ((- n) div 1000)))"

text \<open>
  The loop over \<^verbatim>\<open>badges.split(',')\<close> of the three tier checks: the first badge named
  \<^verbatim>\<open>subscriber\<close> decides; \<^verbatim>\<open>badge_split[1]\<close> raises \<^verbatim>\<open>IndexError\<close> without a slash and
  \<^verbatim>\<open>int\<close> raises \<^verbatim>\<open>ValueError\<close> on a code that is no number.
\<close>

fun tier_loop :: "string list \<Rightarrow> int \<Rightarrow> py_error + bool" where
  "tier_loop [] tier = Inr False"
| "tier_loop (badge # rest) tier =
     (case py_split CHR ''/'' badge of
        [] \<Rightarrow> tier_loop rest tier
      | b0 # bs \<Rightarrow>
          if b0 = ''subscriber'' then
            (case bs of
               [] \<Rightarrow> Inl IndexError
             | code # _ \<Rightarrow>
                 (case py_int code of
                    None \<Rightarrow> Inl ValueError
                  | Some n \<Rightarrow>
                      (case tier_of_code n of Inl e \<Rightarrow> Inl e | Inr t \<Rightarrow> Inr (t = tier))))
          else tier_loop rest tier)"

definition tier_check :: "userlist \<Rightarrow> group \<Rightarrow> int \<Rightarrow> chat_message \<Rightarrow> py_error + bool" where
  "tier_check ul g tier msg =
     (if special_groups ul g \<noteq> {} then
        (if channel msg \<in> special_groups ul g then
           (if tags_get msg ''subscriber'' ''0'' \<noteq> ''0''
            then tier_loop (py_split CHR '','' (tags_get msg ''badges'' '''')) tier
            else Inr False)
         else Inr False)
      else Inr False)"

definition is_tier3sub :: "userlist \<Rightarrow> chat_message \<Rightarrow> py_error + bool" where
  "is_tier3sub ul msg = tier_check ul tier3subs 3 msg"

definition is_tier2sub :: "userlist \<Rightarrow> chat_message \<Rightarrow> py_error + bool" where
  "is_tier2sub ul msg = tier_check ul tier2subs 2 msg"

definition is_tier1sub :: "userlist \<Rightarrow> chat_message \<Rightarrow> py_error + bool" where
  "is_tier1sub ul msg = tier_check ul tier1subs 0 msg"

definition is_partner :: "userlist \<Rightarrow> chat_message \<Rightarrow> bool" where
  "is_partner ul msg = badge_check ul partners ''partner'' msg"

definition is_founder :: "userlist \<Rightarrow> chat_message \<Rightarrow> bool" where
  "is_founder ul msg = badge_check ul founders ''founder'' msg"

definition is_staff :: "userlist \<Rightarrow> chat_message \<Rightarrow> bool" where
  "is_staff ul msg =
     (if special_groups ul staff \<noteq> {} then
        (if channel msg \<in> special_groups ul staff
         then str_contains ''staff'' (tags_get msg ''badges'' '''')
              \<or> str_contains ''admin'' (tags_get msg ''badges'' '''')
         else False)
      else False)"

definition is_prime :: "userlist \<Rightarrow> chat_message \<Rightarrow> bool" where
  "is_prime ul msg = badge_check ul prime ''premium'' msg"

definition is_turbo :: "userlist \<Rightarrow> chat_message \<Rightarrow> bool" where
  "is_turbo ul msg = badge_check ul turbo ''turbo'' msg"

definition is_user :: "userlist \<Rightarrow> chat_message \<Rightarrow> bool" where
  "is_user ul msg =
     (if special_groups ul users \<noteq> {} then channel msg \<in> special_groups ul users else False)"

text \<open>
  \<^verbatim>\<open>any(...)\<close> over the checks in the order of \<^verbatim>\<open>subgroup_checks\<close>: it stops at the first
  true one, and an exception raised before that leaves the call.
\<close>

fun py_any :: "(py_error + bool) list \<Rightarrow> py_error + bool" where
  "py_any [] = Inr False"
| "py_any (Inl e # rest) = Inl e"
| "py_any (Inr b # rest) = (if b then Inr True else py_any rest)"

definition is_in_any_subgroup :: "userlist \<Rightarrow> chat_message \<Rightarrow> py_error + bool" where
  "is_in_any_subgroup ul msg =
     py_any
       [Inr (is_broadcaster ul msg), Inr (is_mod ul msg), Inr (is_vip ul msg),
        Inr (is_subscribed ul msg), is_tier3sub ul msg, is_tier2sub ul msg,
        is_tier1sub ul msg, Inr (is_partner ul msg), Inr (is_founder ul msg),
        Inr (is_staff ul msg), Inr (is_prime ul msg), Inr (is_turbo ul msg),
        Inr (is_user ul msg)]"

text \<open>
  \<^verbatim>\<open>message_in_list\<close>, which is also \<^verbatim>\<open>msg in userlist\<close> for a message: the verdict or
  the exception, and the list with its caches updated.
\<close>

definition message_in_list :: "userlist \<Rightarrow> chat_message \<Rightarrow> (py_error + bool) \<times> userlist" where
  "message_in_list ul msg =
     (if cache_users ul \<and> user msg \<in> known_users ul then
        (Inr (user msg \<in> included_users ul), ul)
      else if user msg \<in> fixed_users ul then
        (Inr True,
         ul\<lparr>included_users := insert (user msg) (included_users ul),
            known_users := insert (user msg) (known_users ul)\<rparr>)
      else
        (case is_in_any_subgroup ul msg of
           Inl e \<Rightarrow> (Inl e, ul)
         | Inr b \<Rightarrow>
             if b then
               (Inr True,
                ul\<lparr>included_users := insert (user msg) (included_users ul),
                   known_users := insert (user msg) (known_users ul)\<rparr>)
             else (Inr False, ul\<lparr>known_users := insert (user msg) (known_users ul)\<rparr>)))"

subsection \<open>Snapshots of a list\<close>

text \<open>\<^verbatim>\<open>UserListDict\<close>: both keys are optional.\<close>

record userlist_dict =
  dict_users :: "string list option"
  dict_groups :: "(string \<times> string list) list option"

text \<open>
  \<^verbatim>\<open>export_dict\<close>. \<open>enum\<close> stands for \<^verbatim>\<open>list(s)\<close> on a set, whose order the interpreter
  decides.
\<close>

definition export_dict :: "(string set \<Rightarrow> string list) \<Rightarrow> userlist \<Rightarrow> userlist_dict" where
  "export_dict enum ul =
     \<lparr>dict_users = Some (enum (fixed_users ul)),
      dict_groups = Some (map (\<lambda>g. (group_token g, enum (special_groups ul g))) all_groups)\<rparr>"

text \<open>
  The group loop of \<^verbatim>\<open>import_dict\<close>; an unknown group name raises \<^verbatim>\<open>KeyError\<close> with the
  groups before it already extended.
\<close>

fun import_groups ::
  "(string \<times> string list) list \<Rightarrow> (group \<Rightarrow> string set)
   \<Rightarrow> py_error option \<times> (group \<Rightarrow> string set)" where
  "import_groups [] sg = (None, sg)"
| "import_groups ((group_name, channel_list) # rest) sg =
     (case mapping_lookup group_name of
        None \<Rightarrow> (Some KeyError, sg)
      | Some g \<Rightarrow> import_groups rest (sg(g := fold insert channel_list (sg g))))"

text \<open>\<^verbatim>\<open>import_dict\<close>: the cache is invalidated only when the loops ran to their end.\<close>

definition import_dict :: "userlist \<Rightarrow> userlist_dict \<Rightarrow> py_error option \<times> userlist" where
  "import_dict ul d =
     (let ul1 = ul\<lparr>fixed_users :=
                   fold insert (case dict_users d of None \<Rightarrow> [] | Some l \<Rightarrow> l) (fixed_users ul)\<rparr>
      in (case import_groups (case dict_groups d of None \<Rightarrow> [] | Some l \<Rightarrow> l)
                 (special_groups ul1) of
            (Some e, sg) \<Rightarrow> (Some e, ul1\<lparr>special_groups := sg\<rparr>)
          | (None, sg) \<Rightarrow> (None, ul1\<lparr>special_groups := sg, known_users := {}\<rparr>)))"

text \<open>
  A list whose \<^verbatim>\<open>$mods\<close> group holds the channel \<^verbatim>\<open>#c\<close> (imported from a snapshot) and
  that has then seen a moderator's message; and a later message of the same user without
  the moderator flag.
\<close>

definition mods_snapshot :: userlist_dict where
  "mods_snapshot = \<lparr>dict_users = None, dict_groups = Some [(''$mods'', [''#c''])]\<rparr>"

definition mod_message :: chat_message where
  "mod_message = \<lparr>user = ''u'', channel = ''#c'', message = ''hi'', tags = [''mod'' \<mapsto> ''1'']\<rparr>"

definition plain_message :: chat_message where
  "plain_message = \<lparr>user = ''u'', channel = ''#c'', message = ''hi'', tags = Map.empty\<rparr>"

definition warm_userlist :: userlist where
  "warm_userlist = snd (message_in_list (snd (import_dict (new_userlist True) mods_snapshot)) mod_message)"

section \<open>Teams (\<^verbatim>\<open>teams/team.py\<close>, \<^verbatim>\<open>teams/subclasses\<close>)\<close>

subsection \<open>Bounded queues\<close>

text \<open>
  \<^verbatim>\<open>deque(maxlen=n).append(x)\<close>: the item goes to the right end, and the leftmost item is
  dropped when the deque is then longer than \<^verbatim>\<open>maxlen\<close>. The head of the list is the oldest
  item; \<^verbatim>\<open>pop()\<close> takes the last one.
\<close>

definition deque_append :: "nat \<Rightarrow> 'a list \<Rightarrow> 'a \<Rightarrow> 'a list" where
  "deque_append maxlen q x = (let q' = q @ [x] in if length q' > maxlen then tl q' else q')"

subsection \<open>Team objects and global data\<close>

text \<open>
  The subclass of a team decides \<^verbatim>\<open>blocked_from_team\<close>, \<^verbatim>\<open>_belongs_to_team\<close> and
  \<^verbatim>\<open>empty_queue_action\<close>. The compiled pattern of a \<^verbatim>\<open>NameRegex_Team\<close> is the set of names
  it fully matches. \<^verbatim>\<open>PredictionNumber_Team\<close> and classes combined from several subclasses
  are not modelled.
\<close>

datatype team_variant =
  Team | Default_Team | None_Team | Whitelist_Team | Balancing_Team
  | NameRegex_Team "string \<Rightarrow> bool" | RandomOnly_Team
  | PredictionBlue_Team | PredictionPink_Team | PredictionNone_Team

text \<open>
  The instance variables of a team. \<open>queue_length\<close> is the \<^verbatim>\<open>maxlen\<close> of both deques;
  \<open>bot\<close> is the channel set of the chatbot the team refers to, in iteration order, or
  \<open>None\<close>. The locks and threads are not fields: the worker steps below record what they
  do to the locks.
\<close>

record team =
  name :: string
  variant :: team_variant
  channels :: "string set"
  actionset :: actionset
  hidden :: bool
  use_random_inputs :: bool
  joinable :: bool
  leavable :: bool
  exclusive :: bool
  spam_protection :: bool
  user_whitelist :: userlist
  user_blacklist :: userlist
  members :: "string set"
  keep_running :: bool
  bot :: "string list option"
  queue_length :: nat
  message_queue :: "chat_message list"
  action_queue :: "(chat_message \<times> action) list"

text \<open>
  \<^verbatim>\<open>GlobalData\<close>: the teams in the order of their registration (the values of
  \<^verbatim>\<open>Teams._all_teams_dict\<close>), the registry \<^verbatim>\<open>Users._all_users_dict\<close> from a user to a team
  object, the action prefixes, the two event states the code reads, and the priority
  messages sent through a bot. A team object is identified by its position in
  \<open>all_teams\<close>. The session logs are not part of the state.
\<close>

record global_data =
  all_teams :: "team list"
  all_users_dict :: "string \<rightharpoonup> nat"
  action_prefixes :: "string set"
  state_accept_input :: bool
  state_random_action :: bool
  priority_messages :: "(string \<times> string) list"

definition team_at :: "global_data \<Rightarrow> nat \<Rightarrow> team" where
  "team_at g i = all_teams g ! i"

definition update_team :: "global_data \<Rightarrow> nat \<Rightarrow> (team \<Rightarrow> team) \<Rightarrow> global_data" where
  "update_team g i f = g\<lparr>all_teams := (all_teams g)[i := f (all_teams g ! i)]\<rparr>"

text \<open>\<^verbatim>\<open>GlobalData.Users\<close>: \<^verbatim>\<open>get_team\<close>, \<^verbatim>\<open>add\<close>, \<^verbatim>\<open>discard\<close>.\<close>

definition get_team :: "global_data \<Rightarrow> string \<Rightarrow> nat option" where
  "get_team g u = all_users_dict g u"

definition Users_add :: "string \<Rightarrow> nat \<Rightarrow> global_data \<Rightarrow> global_data" where
  "Users_add u i g = g\<lparr>all_users_dict := (all_users_dict g)(u \<mapsto> i)\<rparr>"

definition Users_discard :: "string \<Rightarrow> global_data \<Rightarrow> global_data" where
  "Users_discard u g = g\<lparr>all_users_dict := (all_users_dict g)(u := None)\<rparr>"

text \<open>\<^verbatim>\<open>GlobalData.Prefix.Action.message_is_action\<close>.\<close>

definition message_is_action :: "global_data \<Rightarrow> chat_message \<Rightarrow> bool" where
  "message_is_action g msg = (\<exists>p \<in> action_prefixes g. startswith (message msg) p)"

subsection \<open>Membership\<close>

text \<open>
  \<^verbatim>\<open>Team.add_message\<close>. The \<^verbatim>\<open>return\<close> of the spam check leaves the method, so a dropped
  message does not make its user a member.
\<close>

definition add_message :: "nat \<Rightarrow> chat_message \<Rightarrow> global_data \<Rightarrow> global_data" where
  "add_message i msg g =
     (let t = team_at g i in
      if spam_protection t
         \<and> list_ex (\<lambda>existing_message.
               user msg = user existing_message \<and> message msg = message existing_message)
             (message_queue t)
      then g
      else
        (let g1 = update_team g i
                    (\<lambda>t. t\<lparr>message_queue := deque_append (queue_length t) (message_queue t) msg\<rparr>)
         in if exclusive t \<and> user msg \<notin> members t
            then Users_add (user msg) i
                   (update_team g1 i (\<lambda>t. t\<lparr>members := insert (user msg) (members t)\<rparr>))
            else g1))"

text \<open>
  \<^verbatim>\<open>msg in self.user_blacklist\<close> and \<^verbatim>\<open>msg in self.user_whitelist\<close>: the verdict, and the
  state with the list's caches updated.
\<close>

definition in_blacklist :: "nat \<Rightarrow> chat_message \<Rightarrow> global_data \<Rightarrow> (py_error + bool) \<times> global_data" where
  "in_blacklist i msg g =
     (case message_in_list (user_blacklist (team_at g i)) msg of
        (r, ul) \<Rightarrow> (r, update_team g i (\<lambda>t. t\<lparr>user_blacklist := ul\<rparr>)))"

definition in_whitelist :: "nat \<Rightarrow> chat_message \<Rightarrow> global_data \<Rightarrow> (py_error + bool) \<times> global_data" where
  "in_whitelist i msg g =
     (case message_in_list (user_whitelist (team_at g i)) msg of
        (r, ul) \<Rightarrow> (r, update_team g i (\<lambda>t. t\<lparr>user_whitelist := ul\<rparr>)))"

text \<open>\<^verbatim>\<open>self.members.discard(msg.user); GlobalData.Users.discard(msg.user)\<close> for a member.\<close>

definition kick_out :: "nat \<Rightarrow> chat_message \<Rightarrow> global_data \<Rightarrow> global_data" where
  "kick_out i msg g =
     (if user msg \<in> members (team_at g i)
      then Users_discard (user msg)
             (update_team g i (\<lambda>t. t\<lparr>members := members t - {user msg}\<rparr>))
      else g)"

text \<open>\<^verbatim>\<open>Team.blocked_from_team\<close>, the method of the base class.\<close>

definition Team_blocked_from_team ::
  "nat \<Rightarrow> chat_message \<Rightarrow> global_data \<Rightarrow> (py_error + bool) \<times> global_data" where
  "Team_blocked_from_team i msg g =
     (case in_blacklist i msg g of
        (Inl e, g1) \<Rightarrow> (Inl e, g1)
      | (Inr blacklisted, g1) \<Rightarrow>
          if blacklisted
             \<or> (exclusive (team_at g1 i)
                \<and> (case get_team g1 (user msg) of None \<Rightarrow> False | Some other_team \<Rightarrow> other_team \<noteq> i))
          then (Inr True, kick_out i msg g1)
          else (Inr False, g1))"

text \<open>\<^verbatim>\<open>msg.tags['badges']\<close>, which raises \<^verbatim>\<open>KeyError\<close> without the tag.\<close>

definition badges_tag :: "chat_message \<Rightarrow> py_error + string" where
  "badges_tag msg = (case tags msg ''badges'' of None \<Rightarrow> Inl KeyError | Some b \<Rightarrow> Inr b)"

text \<open>
  The test of a prediction team that evicts: a pink badge for the blue team, a blue badge
  for the pink team, either for the team of those who placed no bet.
\<close>

definition opposite_bet :: "team_variant \<Rightarrow> string \<Rightarrow> bool" where
  "opposite_bet v badges =
     (case v of
        PredictionBlue_Team \<Rightarrow> str_contains ''predictions/pink'' badges
      | PredictionPink_Team \<Rightarrow> str_contains ''predictions/blue'' badges
      | PredictionNone_Team \<Rightarrow>
          str_contains ''predictions/blue'' badges \<or> str_contains ''predictions/pink'' badges
      | _ \<Rightarrow> False)"

definition is_prediction_team :: "team_variant \<Rightarrow> bool" where
  "is_prediction_team v =
     (v = PredictionBlue_Team \<or> v = PredictionPink_Team \<or> v = PredictionNone_Team)"

text \<open>
  \<^verbatim>\<open>blocked_from_team\<close> as the team's class defines it: \<^verbatim>\<open>Whitelist_Team\<close> and the
  prediction teams call the base method first and add their own test.
\<close>

definition blocked_from_team ::
  "nat \<Rightarrow> chat_message \<Rightarrow> global_data \<Rightarrow> (py_error + bool) \<times> global_data" where
  "blocked_from_team i msg g =
     (case Team_blocked_from_team i msg g of
        (Inl e, g1) \<Rightarrow> (Inl e, g1)
      | (Inr True, g1) \<Rightarrow> (Inr True, g1)
      | (Inr False, g1) \<Rightarrow>
          if variant (team_at g1 i) = Whitelist_Team then
            (if user msg \<in> members (team_at g1 i) then (Inr False, g1)
             else (case in_whitelist i msg g1 of
                     (Inl e, g2) \<Rightarrow> (Inl e, g2)
                   | (Inr w, g2) \<Rightarrow> (Inr (\<not> w), g2)))
          else if is_prediction_team (variant (team_at g1 i)) then
            (case badges_tag msg of
               Inl e \<Rightarrow> (Inl e, g1)
             | Inr badges \<Rightarrow>
                 if opposite_bet (variant (team_at g1 i)) badges
                 then (Inr True, kick_out i msg g1)
                 else (Inr False, g1))
          else (Inr False, g1))"

text \<open>\<^verbatim>\<open>Team._belongs_to_team\<close>, the method of the base class.\<close>

definition Team_belongs_to_team ::
  "nat \<Rightarrow> chat_message \<Rightarrow> global_data \<Rightarrow> (py_error + Quadstate) \<times> global_data" where
  "Team_belongs_to_team i msg g =
     (if user msg \<in> members (team_at g i) then (Inr AbsolutelyTrue, g)
      else (case in_whitelist i msg g of
              (Inl e, g1) \<Rightarrow> (Inl e, g1)
            | (Inr w, g1) \<Rightarrow> (Inr (if w then AbsolutelyTrue else MaybeFalse), g1)))"

text \<open>
  The vote that a subclass adds when the base class is not certain. \<^verbatim>\<open>Balancing_Team\<close>
  looks for an unhidden balancing team with fewer members.
\<close>

definition own_vote :: "nat \<Rightarrow> chat_message \<Rightarrow> global_data \<Rightarrow> py_error + Quadstate" where
  "own_vote i msg g =
     (case variant (team_at g i) of
        Default_Team \<Rightarrow> Inr MaybeTrue
      | None_Team \<Rightarrow> Inr AbsolutelyFalse
      | Balancing_Team \<Rightarrow>
          if list_ex (\<lambda>t. variant t = Balancing_Team \<and> \<not> hidden t
                          \<and> card (members t) < card (members (team_at g i)))
               (all_teams g)
          then Inr AbsolutelyFalse else Inr MaybeTrue
      | NameRegex_Team fullmatch \<Rightarrow>
          if fullmatch (user msg) then Inr MaybeTrue else Inr AbsolutelyFalse
      | PredictionBlue_Team \<Rightarrow>
          (case badges_tag msg of Inl e \<Rightarrow> Inl e
           | Inr b \<Rightarrow> if str_contains ''predictions/blue'' b then Inr MaybeTrue
                      else Inr AbsolutelyFalse)
      | PredictionPink_Team \<Rightarrow>
          (case badges_tag msg of Inl e \<Rightarrow> Inl e
           | Inr b \<Rightarrow> if str_contains ''predictions/pink'' b then Inr MaybeTrue
                      else Inr AbsolutelyFalse)
      | PredictionNone_Team \<Rightarrow>
          (case badges_tag msg of Inl e \<Rightarrow> Inl e
           | Inr b \<Rightarrow> if \<not> str_contains ''predictions/'' b then Inr MaybeTrue
                      else Inr AbsolutelyFalse)
      | _ \<Rightarrow> Inr MaybeFalse)"

text \<open>
  \<^verbatim>\<open>_belongs_to_team\<close> as the team's class defines it: \<^verbatim>\<open>Team\<close>, \<^verbatim>\<open>Whitelist_Team\<close> and
  \<^verbatim>\<open>RandomOnly_Team\<close> have the base method; the others return its result when it is certain
  and their own vote otherwise.
\<close>

definition inherits_belongs :: "team_variant \<Rightarrow> bool" where
  "inherits_belongs v = (v = Team \<or> v = Whitelist_Team \<or> v = RandomOnly_Team)"

definition private_belongs_to_team ::
  "nat \<Rightarrow> chat_message \<Rightarrow> global_data \<Rightarrow> (py_error + Quadstate) \<times> global_data" where
  "private_belongs_to_team i msg g =
     (case Team_belongs_to_team i msg g of
        (Inl e, g1) \<Rightarrow> (Inl e, g1)
      | (Inr super_result, g1) \<Rightarrow>
          if inherits_belongs (variant (team_at g1 i)) then (Inr super_result, g1)
          else if is_certain super_result then (Inr super_result, g1)
          else (own_vote i msg g1, g1))"

text \<open>\<^verbatim>\<open>belongs_to_team\<close>: \<^verbatim>\<open>bool(self._belongs_to_team(msg))\<close>.\<close>

definition belongs_to_team ::
  "nat \<Rightarrow> chat_message \<Rightarrow> global_data \<Rightarrow> (py_error + bool) \<times> global_data" where
  "belongs_to_team i msg g =
     (case private_belongs_to_team i msg g of
        (Inl e, g1) \<Rightarrow> (Inl e, g1)
      | (Inr q, g1) \<Rightarrow> (Inr (quad_bool q), g1))"

text \<open>\<^verbatim>\<open>Team.join_team\<close> and \<^verbatim>\<open>Team.leave_team\<close>, with the returned flag.\<close>

definition join_team :: "nat \<Rightarrow> string \<Rightarrow> global_data \<Rightarrow> bool \<times> global_data" where
  "join_team i u g =
     (if joinable (team_at g i) \<and> exclusive (team_at g i)
      then (True, Users_add u i (update_team g i (\<lambda>t. t\<lparr>members := insert u (members t)\<rparr>)))
      else (False, g))"

definition leave_team :: "nat \<Rightarrow> string \<Rightarrow> global_data \<Rightarrow> bool \<times> global_data" where
  "leave_team i u g =
     (if leavable (team_at g i) then
        (if u \<in> members (team_at g i)
         then (True, Users_discard u (update_team g i (\<lambda>t. t\<lparr>members := members t - {u}\<rparr>)))
         else (False, g))
      else (False, g))"

section \<open>Team functions (\<^verbatim>\<open>teams/functions.py\<close>)\<close>

text \<open>
  \<^verbatim>\<open>clear_team_members\<close>: the members sets are emptied; then the first team's bot announces
  it on each of its channels, and a team without a bot raises \<^verbatim>\<open>ValueError\<close>.
\<close>

definition clear_team_members :: "global_data \<Rightarrow> (py_error + bool) \<times> global_data" where
  "clear_team_members g =
     (let had_non_empty_teams = list_ex (\<lambda>t. members t \<noteq> {}) (all_teams g);
          g1 = g\<lparr>all_teams :=
                   map (\<lambda>t. if members t \<noteq> {} then t\<lparr>members := {}\<rparr> else t) (all_teams g)\<rparr>
      in if had_non_empty_teams then
           (case bot (hd (all_teams g1)) of
              None \<Rightarrow> (Inl ValueError, g1)
            | Some channel_set \<Rightarrow>
                (Inr True,
                 g1\<lparr>priority_messages :=
                      priority_messages g1
                      @ map (\<lambda>chan. (chan, ''Teams have been cleared!'')) channel_set\<rparr>))
         else (Inr False, g1))"

text \<open>
  \<^verbatim>\<open>__add_message_to_team\<close>. The four tests are evaluated from left to right and stop at
  the first that fails.
\<close>

definition add_message_to_team ::
  "chat_message \<Rightarrow> nat \<Rightarrow> global_data \<Rightarrow> (py_error + bool) \<times> global_data" where
  "add_message_to_team msg i g =
     (if channel msg \<in> channels (team_at g i)
         \<and> message_is_command (actionset (team_at g i)) msg
      then
        (case blocked_from_team i msg g of
           (Inl e, g1) \<Rightarrow> (Inl e, g1)
         | (Inr True, g1) \<Rightarrow> (Inr False, g1)
         | (Inr False, g1) \<Rightarrow>
             (case belongs_to_team i msg g1 of
                (Inl e, g2) \<Rightarrow> (Inl e, g2)
              | (Inr False, g2) \<Rightarrow> (Inr False, g2)
              | (Inr True, g2) \<Rightarrow> (Inr True, add_message i msg g2)))
      else (Inr False, g))"

text \<open>
  How a call of the router ended: at the \<^verbatim>\<open>return\<close> after a team took the message, at the
  end without any team taking it, or with an exception.
\<close>

datatype delivery = Admitted nat | Dropped | Raised py_error

text \<open>The fallback loop \<^verbatim>\<open>for team in GlobalData.Teams.get_all_teams()\<close>.\<close>

fun scan_teams :: "chat_message \<Rightarrow> nat list \<Rightarrow> global_data \<Rightarrow> delivery \<times> global_data" where
  "scan_teams msg [] g = (Dropped, g)"
| "scan_teams msg (i # rest) g =
     (case add_message_to_team msg i g of
        (Inl e, g1) \<Rightarrow> (Raised e, g1)
      | (Inr True, g1) \<Rightarrow> (Admitted i, g1)
      | (Inr False, g1) \<Rightarrow> scan_teams msg rest g1)"

text \<open>\<^verbatim>\<open>add_message_to_assigned_team\<close>.\<close>

definition add_message_to_assigned_team ::
  "chat_message \<Rightarrow> global_data \<Rightarrow> delivery \<times> global_data" where
  "add_message_to_assigned_team msg g =
     (if state_accept_input g \<and> message_is_action g msg then
        (case get_team g (user msg) of
           None \<Rightarrow> scan_teams msg [0..<length (all_teams g)] g
         | Some i \<Rightarrow>
             (case add_message_to_team msg i g of
                (Inl e, g1) \<Rightarrow> (Raised e, g1)
              | (Inr True, g1) \<Rightarrow> (Admitted i, g1)
              | (Inr False, g1) \<Rightarrow> scan_teams msg [0..<length (all_teams g1)] g1))
      else (Dropped, g))"

section \<open>The worker loops of a team (\<^verbatim>\<open>teams/team.py\<close>)\<close>

text \<open>
  One pass of each worker loop. Besides the new team, a pass returns the exception that
  left it, if any, and the sequence of what it did to the locks, to the queues and to its
  collaborators, in the order of the source: a \<^verbatim>\<open>with lock:\<close> block acquires on entry and
  releases on every exit, also by \<^verbatim>\<open>return\<close> and by an exception.
\<close>

datatype lock = message_queue_lock | action_queue_lock

datatype event =
  Acquire lock | Release lock
  | Pop_message | Translate chat_message | Append_action | Clear_messages
  | Pop_action | Log_executed chat_message | Clear_actions
  | Execute action | Sleep

text \<open>Whether a lock is held after a sequence of events that starts with the lock free.\<close>

definition held :: "lock \<Rightarrow> event list \<Rightarrow> bool" where
  "held l evs =
     fold (\<lambda>e h. if e = Acquire l then True else if e = Release l then False else h) evs False"

text \<open>
  \<^verbatim>\<open>_translate_queued_message\<close>; \<open>translate\<close> is the actionset's
  \<^verbatim>\<open>translate_user_message_to_action\<close>. \<^verbatim>\<open>pop()\<close> on the empty queue and a translation
  that raises \<^verbatim>\<open>IndexError\<close> both end in the handler that sleeps.
\<close>

definition translate_queued_message ::
  "(chat_message \<Rightarrow> py_error + action option) \<Rightarrow> team \<Rightarrow> py_error option \<times> team \<times> event list" where
  "translate_queued_message translate t =
     (case message_queue t of
        [] \<Rightarrow> (None, t, [Acquire message_queue_lock, Pop_message, Release message_queue_lock, Sleep])
      | _ # _ \<Rightarrow>
          (let msg = last (message_queue t);
               t1 = t\<lparr>message_queue := butlast (message_queue t)\<rparr>
           in case translate msg of
                Inl e \<Rightarrow>
                  if e = IndexError then
                    (None, t1,
                     [Acquire message_queue_lock, Pop_message, Translate msg,
                      Release message_queue_lock, Sleep])
                  else
                    (Some e, t1,
                     [Acquire message_queue_lock, Pop_message, Translate msg,
                      Release message_queue_lock])
              | Inr None \<Rightarrow>
                  (None, t1,
                   [Acquire message_queue_lock, Pop_message, Translate msg,
                    Release message_queue_lock])
              | Inr (Some func) \<Rightarrow>
                  (None,
                   t1\<lparr>action_queue := deque_append (queue_length t1) (action_queue t1) (msg, func),
                      message_queue := []\<rparr>,
                   [Acquire message_queue_lock, Pop_message, Translate msg,
                    Acquire action_queue_lock, Append_action, Release action_queue_lock,
                    Clear_messages, Release message_queue_lock])))"

text \<open>
  \<^verbatim>\<open>empty_queue_action\<close>, with the override of \<^verbatim>\<open>RandomOnly_Team\<close>; \<open>random_action\<close> is
  what the actionset's \<^verbatim>\<open>random_action()\<close> returns or raises.
\<close>

definition empty_queue_action :: "global_data \<Rightarrow> py_error + action \<Rightarrow> team \<Rightarrow> py_error + action" where
  "empty_queue_action g random_action t =
     (if variant t = RandomOnly_Team then
        (if state_accept_input g \<or> state_random_action g then random_action
         else Inr sleep_EMPTY_QUEUE)
      else
        (if use_random_inputs t \<and> state_random_action g then random_action
         else Inr sleep_EMPTY_QUEUE))"

text \<open>
  The second \<^verbatim>\<open>try\<close> of \<^verbatim>\<open>_execute_queued_action\<close>: \<open>execute\<close> is the input server's
  \<^verbatim>\<open>execute\<close>, which returns or raises.
\<close>

definition send_to_input_server ::
  "(action \<Rightarrow> py_error option) \<Rightarrow> action \<Rightarrow> team \<Rightarrow> event list
   \<Rightarrow> py_error option \<times> team \<times> event list" where
  "send_to_input_server execute func t evs =
     (case execute func of
        None \<Rightarrow> (None, t, evs @ [Execute func])
      | Some e \<Rightarrow>
          if e = ConnectionRefusedError then (None, t\<lparr>keep_running := False\<rparr>, evs @ [Execute func])
          else (Some e, t, evs @ [Execute func]))"

text \<open>\<^verbatim>\<open>_execute_queued_action\<close>.\<close>

definition execute_queued_action ::
  "(action \<Rightarrow> py_error option) \<Rightarrow> global_data \<Rightarrow> py_error + action \<Rightarrow> team
   \<Rightarrow> py_error option \<times> team \<times> event list" where
  "execute_queued_action execute g random_action t =
     (case action_queue t of
        [] \<Rightarrow>
          (case empty_queue_action g random_action t of
             Inl e \<Rightarrow> (Some e, t, [Acquire action_queue_lock, Pop_action, Release action_queue_lock])
           | Inr func \<Rightarrow>
               send_to_input_server execute func t
                 [Acquire action_queue_lock, Pop_action, Release action_queue_lock])
      | _ # _ \<Rightarrow>
          (case last (action_queue t) of
             (msg, func) \<Rightarrow>
               send_to_input_server execute func (t\<lparr>action_queue := []\<rparr>)
                 [Acquire action_queue_lock, Pop_action, Log_executed msg, Clear_actions,
                  Release action_queue_lock]))"

subsection \<open>Example teams\<close>

text \<open>
  The value of \<^verbatim>\<open>VERB_DELAY_DURATION_REGEX.findall\<close> on the message \<^verbatim>\<open>+left\<close>, the only
  text the examples translate.
\<close>

definition findall_left :: "string \<Rightarrow> regex_result list" where
  "findall_left s = (if s = ''+left'' then [(''+left'', '''', '''')] else [])"



definition left_message :: "string \<Rightarrow> chat_message" where
  "left_message u = \<lparr>user = u, channel = ''#c'', message = ''+left'', tags = Map.empty\<rparr>"

text \<open>An exclusive \<^verbatim>\<open>Default_Team\<close> on the channel \<^verbatim>\<open>#c\<close> with empty lists and queues.\<close>

definition example_team :: "string \<Rightarrow> team" where
  "example_team n =
     \<lparr>name = n, variant = Default_Team, channels = {''#c''}, actionset = example_actionset,
      hidden = False, use_random_inputs = False, joinable = True, leavable = True,
      exclusive = True, spam_protection = True,
      user_whitelist = new_userlist True, user_blacklist = new_userlist True,
      members = {}, keep_running = True, bot = Some [''#c''], queue_length = 2,
      message_queue = [], action_queue = []\<rparr>"

text \<open>An input server whose \<^verbatim>\<open>execute\<close> returns for every action.\<close>

definition accepting_input_server :: "action \<Rightarrow> py_error option" where
  "accepting_input_server func = None"

text \<open>Two example teams registered in this order, nobody a member yet, input accepted.\<close>

definition example_global_data :: global_data where
  "example_global_data =
     \<lparr>all_teams = [example_team ''A'', example_team ''B''], all_users_dict = Map.empty,
      action_prefixes = {''+''}, state_accept_input = True, state_random_action = False,
      priority_messages = []\<rparr>"

section \<open>Vocabulary of the proofs\<close>

text \<open>
  \<open>evicts g g'\<close>: the state \<open>g'\<close> differs from \<open>g\<close> at most in the caches of the teams'
  user lists and in users that were removed from members sets and from the registry.
\<close>

definition evicts :: "global_data \<Rightarrow> global_data \<Rightarrow> bool" where
  "evicts g g' =
     (length (all_teams g') = length (all_teams g)
      \<and> action_prefixes g' = action_prefixes g
      \<and> state_accept_input g' = state_accept_input g
      \<and> state_random_action g' = state_random_action g
      \<and> priority_messages g' = priority_messages g
      \<and> all_users_dict g' \<subseteq>\<^sub>m all_users_dict g
      \<and> (\<forall>k. team_at g' k
               = (team_at g k)\<lparr>members := members (team_at g' k),
                                user_whitelist := user_whitelist (team_at g' k),
                                user_blacklist := user_blacklist (team_at g' k)\<rparr>
             \<and> members (team_at g' k) \<subseteq> members (team_at g k)))"

text \<open>
  The state after the user \<^verbatim>\<open>u\<close> sent \<^verbatim>\<open>+left\<close> on \<^verbatim>\<open>#c\<close> in \<open>example_global_data\<close>: the
  first team has the message queued and the user as member, its two lists have cached
  the user as not included, and the registry maps the user to the first team.
\<close>

definition seen_userlist :: userlist where
  "seen_userlist = (new_userlist True)\<lparr>known_users := {''u''}\<rparr>"

definition joined_global_data :: global_data where
  "joined_global_data =
     \<lparr>all_teams =
        [(example_team ''A'')\<lparr>user_whitelist := seen_userlist, user_blacklist := seen_userlist,
                               members := {''u''}, message_queue := [left_message ''u'']\<rparr>,
         example_team ''B''],
      all_users_dict = [''u'' \<mapsto> 0], action_prefixes = {''+''}, state_accept_input = True,
      state_random_action = False, priority_messages = []\<rparr>"

text \<open>
  A single team whose member \<^verbatim>\<open>u\<close> has been put on its blacklist afterwards
  (\<^verbatim>\<open>add_to_list\<close> enters a user name into \<^verbatim>\<open>fixed_users\<close>, \<^verbatim>\<open>included_users\<close> and
  \<^verbatim>\<open>known_users\<close>).
\<close>

definition blacklisted_member_data :: global_data where
  "blacklisted_member_data =
     \<lparr>all_teams =
        [(example_team ''A'')
           \<lparr>user_blacklist :=
              \<lparr>cache_users = True, known_users = {''u''}, included_users = {''u''},
               fixed_users = {''u''}, special_groups = (\<lambda>g. {})\<rparr>,
            members := {''u''}\<rparr>],
      all_users_dict = [''u'' \<mapsto> 0], action_prefixes = {''+''}, state_accept_input = True,
      state_random_action = False, priority_messages = []\<rparr>"

text \<open>
  The two example teams with the user \<^verbatim>\<open>u\<close> a member of the second one and recorded so in
  the registry.
\<close>

definition second_team_member_data :: global_data where
  "second_team_member_data =
     \<lparr>all_teams = [example_team ''A'', (example_team ''B'')\<lparr>members := {''u''}\<rparr>],
      all_users_dict = [''u'' \<mapsto> 1], action_prefixes = {''+''}, state_accept_input = True,
      state_random_action = False, priority_messages = []\<rparr>"

text \<open>
  \<open>registry_agrees g\<close>: the registry records a team for a user exactly when that team
  exists and has the user in its members set.
\<close>

definition registry_agrees :: "global_data \<Rightarrow> bool" where
  "registry_agrees g =
     (\<forall>u i. (all_users_dict g u = Some i)
            = (i < length (all_teams g) \<and> u \<in> members (team_at g i)))"

text \<open>
  \<open>unclaimed g i u\<close>: the registry records no team other than \<open>i\<close> for the user; this is
  the part of \<^verbatim>\<open>blocked_from_team\<close> that guards exclusive membership.
\<close>

definition unclaimed :: "global_data \<Rightarrow> nat \<Rightarrow> string \<Rightarrow> bool" where
  "unclaimed g i u = (get_team g u = None \<or> get_team g u = Some i)"

text \<open>
  \<open>lists_only g g'\<close>: the state \<open>g'\<close> differs from \<open>g\<close> at most in the teams' user lists
  (their caches).
\<close>

definition lists_only :: "global_data \<Rightarrow> global_data \<Rightarrow> bool" where
  "lists_only g g' =
     (length (all_teams g') = length (all_teams g)
      \<and> all_users_dict g' = all_users_dict g
      \<and> (\<forall>k. team_at g' k
               = (team_at g k)\<lparr>user_whitelist := user_whitelist (team_at g' k),
                                user_blacklist := user_blacklist (team_at g' k)\<rparr>))"

section \<open>Sequences of membership operations\<close>

text \<open>
  The states reached from a state without members and with an empty registry by the
  operations that change memberships, each on an existing team: the router and its helper
  (which call \<^verbatim>\<open>add_message\<close> only after \<^verbatim>\<open>blocked_from_team\<close> and \<^verbatim>\<open>belongs_to_team\<close>),
  the two tests on their own, \<^verbatim>\<open>leave_team\<close>, and \<^verbatim>\<open>add_message\<close> and \<^verbatim>\<open>join_team\<close> called
  directly for a user whom the registry records for no other team.
\<close>

inductive reachable :: "global_data \<Rightarrow> bool" where
  initial:
    "list_all (\<lambda>t. members t = {}) (all_teams g) \<Longrightarrow> all_users_dict g = Map.empty
     \<Longrightarrow> reachable g"
| router:
    "reachable g \<Longrightarrow> add_message_to_assigned_team msg g = (d, g') \<Longrightarrow> reachable g'"
| attempt:
    "reachable g \<Longrightarrow> i < length (all_teams g) \<Longrightarrow> add_message_to_team msg i g = (r, g')
     \<Longrightarrow> reachable g'"
| blocked:
    "reachable g \<Longrightarrow> i < length (all_teams g) \<Longrightarrow> blocked_from_team i msg g = (r, g')
     \<Longrightarrow> reachable g'"
| belongs:
    "reachable g \<Longrightarrow> i < length (all_teams g) \<Longrightarrow> belongs_to_team i msg g = (r, g')
     \<Longrightarrow> reachable g'"
| leave:
    "reachable g \<Longrightarrow> i < length (all_teams g) \<Longrightarrow> leave_team i u g = (b, g')
     \<Longrightarrow> reachable g'"
| guarded_add:
    "reachable g \<Longrightarrow> i < length (all_teams g) \<Longrightarrow> unclaimed g i (user msg)
     \<Longrightarrow> reachable (add_message i msg g)"
| guarded_join:
    "reachable g \<Longrightarrow> i < length (all_teams g) \<Longrightarrow> unclaimed g i u
     \<Longrightarrow> join_team i u g = (b, g') \<Longrightarrow> reachable g'"

section \<open>Theorems\<close>

text \<open>
  C9. For the four Quadstate values, \<^verbatim>\<open>bool\<close> of AbsolutelyTrue and of MaybeTrue is
  True, \<^verbatim>\<open>bool\<close> of AbsolutelyFalse and of MaybeFalse is False, and \<^verbatim>\<open>is_certain()\<close>
  is true exactly for AbsolutelyTrue and AbsolutelyFalse.
\<close>

theorem quadstate_bool_and_certainty:
  "quad_bool AbsolutelyTrue \<and> quad_bool MaybeTrue
   \<and> \<not> quad_bool AbsolutelyFalse \<and> \<not> quad_bool MaybeFalse
   \<and> is_certain q = (q = AbsolutelyTrue \<or> q = AbsolutelyFalse)"
  by (cases q) (simp_all add: quad_bool_def is_certain_def TRUE_bits_def FALSE_bits_def MAYBE_bits_def)

subsection \<open>Verb translation\<close>

lemmas example_simps =
  example_actionset_def example_verb_param_def translate_verb_def verb_body_def
  lookup_verb_def sub_action_def param_int_def gamepad_translate_verb_parameters_to_key_def
  clamp_def caught_def py_int_def py_strip_def is_space_def py_nat_def digit_val_def
  int_max_str_digits_def

lemma clamp_bounds: "min lo hi \<le> clamp lo v hi \<and> clamp lo v hi \<le> max lo hi"
  by (simp add: clamp_def Let_def split: if_splits) 

lemma sub_actions_appends:
  "sub_actions a pd pdur inh vps args = (r, args') \<Longrightarrow>
   \<exists>fas. args' = args @ fas \<and> length fas \<le> length vps
     \<and> (\<forall>i<length fas. sub_action a pd pdur inh (vps ! i) = Inr (fas ! i))"
proof (induction vps arbitrary: args)
  case Nil
  then show ?case by simp
next
  case (Cons vp vps)
  show ?case
  proof (cases "sub_action a pd pdur inh vp")
    case (Inl e)
    with Cons.prems show ?thesis by simp
  next
    case (Inr fa)
    with Cons.prems have "sub_actions a pd pdur inh vps (args @ [fa]) = (r, args')" by simp
    from Cons.IH [OF this] obtain fas where
      fas: "args' = (args @ [fa]) @ fas" "length fas \<le> length vps"
        "\<forall>i<length fas. sub_action a pd pdur inh (vps ! i) = Inr (fas ! i)" by blast
    have "\<forall>i<length (fa # fas). sub_action a pd pdur inh ((vp # vps) ! i) = Inr ((fa # fas) ! i)"
      using fas(3) Inr by (auto simp: nth_Cons split: nat.splits)
    with fas(1,2) show ?thesis
      by (intro exI [of _ "fa # fas"]) simp
  qed
qed

lemma sub_action_bounds:
  assumes "sub_action a pd pdur inh vp = Inr fa"
  shows "min 0 (max_time vp) \<le> arg_delay fa \<and> arg_delay fa \<le> max 0 (max_time vp)
    \<and> (if input_type vp = PRESS_KEY
        then min (min_time vp) (max_time vp - arg_delay fa) \<le> arg_duration fa
           \<and> arg_duration fa \<le> max (min_time vp) (max_time vp - arg_delay fa)
        else arg_duration fa = input_type_value (input_type vp))"
  using assms clamp_bounds [of 0 "max_time vp" "pd + delay vp"]
    clamp_bounds [of "min_time vp" "max_time vp - clamp 0 (pd + delay vp) (max_time vp)"]
  by (auto simp: sub_action_def Let_def split: sum.splits option.splits if_splits)

lemma translate_verb_result:
  assumes "lookup_verb a verb = Some vpl" and "translate_verb a verb pd pdur args = Inr args'"
  shows "\<exists>fas inh. args' = args @ fas \<and> length fas \<le> length vpl
     \<and> (\<forall>i<length fas. sub_action a pd pdur inh (vpl ! i) = Inr (fas ! i))"
proof (cases vpl)
  case Nil
  with assms show ?thesis by (simp add: translate_verb_def verb_body_def caught_def)
next
  case (Cons vp0 rest)
  obtain r args'' where r: "sub_actions a pd pdur (duration vp0) vpl args = (r, args'')"
    by (cases "sub_actions a pd pdur (duration vp0) vpl args") 
  with assms Cons have "args'' = args'"
    by (auto simp: translate_verb_def verb_body_def split: option.splits if_splits)
  with sub_actions_appends [OF r] show ?thesis by blast
qed

text \<open>
  C6, as amended. For a known verb, every sub-action that translation appends comes from
  the verb's parameter list in order; its delay lies between 0 and \<^verbatim>\<open>max_time\<close>; for a
  press-type sub-action the duration lies between \<^verbatim>\<open>min_time\<close> and \<^verbatim>\<open>max_time - delay\<close>
  (the two bounds swapped when they are inverted); for a hold or release sub-action the
  duration is the input type's magic value. For a verb whose single sub-action has
  \<^verbatim>\<open>min_time=50\<close>, \<^verbatim>\<open>max_time=500\<close>, default duration 100, default delay 0 and a key that
  resolves, a user duration of 9999 without a delay gives 500 and an absent (zero) user
  duration gives the default 100.
\<close>

theorem verb_translation_clamping:
  assumes "lookup_verb a verb = Some vpl" and "translate_verb a verb pd pdur args = Inr args'"
  shows "(\<exists>fas. args' = args @ fas \<and> length fas \<le> length vpl
     \<and> (\<forall>i<length fas.
          min 0 (max_time (vpl ! i)) \<le> arg_delay (fas ! i)
        \<and> arg_delay (fas ! i) \<le> max 0 (max_time (vpl ! i))
        \<and> (if input_type (vpl ! i) = PRESS_KEY
            then min (min_time (vpl ! i)) (max_time (vpl ! i) - arg_delay (fas ! i))
                   \<le> arg_duration (fas ! i)
               \<and> arg_duration (fas ! i)
                   \<le> max (min_time (vpl ! i)) (max_time (vpl ! i) - arg_delay (fas ! i))
            else arg_duration (fas ! i) = input_type_value (input_type (vpl ! i)))))
   \<and> (vpl = [vp] \<and> min_time vp = 50 \<and> max_time vp = 500 \<and> duration vp = 100
        \<and> delay vp = 0 \<and> input_type vp = PRESS_KEY \<and> pd = 0
        \<and> translate_verb_parameters_to_key a vp = Inr (Some k)
      \<longrightarrow> (pdur = 9999 \<longrightarrow> args' = args @ [\<lparr>arg_key = k, arg_delay = 0, arg_duration = 500\<rparr>])
        \<and> (pdur = 0 \<longrightarrow> args' = args @ [\<lparr>arg_key = k, arg_delay = 0, arg_duration = 100\<rparr>]))"
proof (rule conjI)
  from translate_verb_result [OF assms] obtain fas inh where
    fas: "args' = args @ fas" "length fas \<le> length vpl"
      "\<forall>i<length fas. sub_action a pd pdur inh (vpl ! i) = Inr (fas ! i)" by blast
  show "\<exists>fas. args' = args @ fas \<and> length fas \<le> length vpl
     \<and> (\<forall>i<length fas.
          min 0 (max_time (vpl ! i)) \<le> arg_delay (fas ! i)
        \<and> arg_delay (fas ! i) \<le> max 0 (max_time (vpl ! i))
        \<and> (if input_type (vpl ! i) = PRESS_KEY
            then min (min_time (vpl ! i)) (max_time (vpl ! i) - arg_delay (fas ! i))
                   \<le> arg_duration (fas ! i)
               \<and> arg_duration (fas ! i)
                   \<le> max (min_time (vpl ! i)) (max_time (vpl ! i) - arg_delay (fas ! i))
            else arg_duration (fas ! i) = input_type_value (input_type (vpl ! i))))"
    using fas sub_action_bounds by (intro exI [of _ fas]) blast
next
  show "vpl = [vp] \<and> min_time vp = 50 \<and> max_time vp = 500 \<and> duration vp = 100
        \<and> delay vp = 0 \<and> input_type vp = PRESS_KEY \<and> pd = 0
        \<and> translate_verb_parameters_to_key a vp = Inr (Some k)
      \<longrightarrow> (pdur = 9999 \<longrightarrow> args' = args @ [\<lparr>arg_key = k, arg_delay = 0, arg_duration = 500\<rparr>])
        \<and> (pdur = 0 \<longrightarrow> args' = args @ [\<lparr>arg_key = k, arg_delay = 0, arg_duration = 100\<rparr>])"
    using assms
    by (auto simp: translate_verb_def verb_body_def sub_action_def clamp_def Let_def
        split: sum.splits option.splits if_splits)
qed

text \<open>
  The claim as written fails: \<^verbatim>\<open>+left\<close> alone gets the delay 0, below \<^verbatim>\<open>min_time = 50\<close>,
  and \<^verbatim>\<open>+left 480;30\<close> gets the duration 30, below \<^verbatim>\<open>min_time\<close> as well.
\<close>

theorem verb_translation_clamping_counterexample:
  "translate_regex_results example_actionset [(''+left'', '''', '''')] []
     = Inr [\<lparr>arg_key = ''DPAD_LEFT'', arg_delay = 0, arg_duration = 100\<rparr>]
   \<and> \<not> (min_time example_verb_param \<le> 0)
   \<and> translate_regex_results example_actionset [(''+left'', ''480'', ''30'')] []
     = Inr [\<lparr>arg_key = ''DPAD_LEFT'', arg_delay = 480, arg_duration = 30\<rparr>]
   \<and> \<not> (min_time example_verb_param \<le> 30)"
  by (simp add: example_simps)

theorem verb_translation_clamping_witness:
  "lookup_verb example_actionset ''+left'' = Some [example_verb_param]
   \<and> translate_verb example_actionset ''+left'' 0 9999 []
       = Inr [\<lparr>arg_key = ''DPAD_LEFT'', arg_delay = 0, arg_duration = 500\<rparr>]
   \<and> translate_verb example_actionset ''+left'' 0 0 []
       = Inr [\<lparr>arg_key = ''DPAD_LEFT'', arg_delay = 0, arg_duration = 100\<rparr>]"
proof -
  have l: "lookup_verb example_actionset ''+left'' = Some [example_verb_param]"
    by (simp add: example_simps)
  have t: "translate_verb example_actionset ''+left'' 0 9999 []
       = Inr [\<lparr>arg_key = ''DPAD_LEFT'', arg_delay = 0, arg_duration = 500\<rparr>]"
    by (simp add: example_simps)
  have t0: "translate_verb example_actionset ''+left'' 0 0 []
       = Inr [\<lparr>arg_key = ''DPAD_LEFT'', arg_delay = 0, arg_duration = 100\<rparr>]"
    by (simp add: example_simps)
  from verb_translation_clamping [OF l t, of example_verb_param "''DPAD_LEFT''"] l t t0 show ?thesis by simp
qed





subsection \<open>User list snapshots\<close>

lemma mapping_lookup_token: "mapping_lookup (group_token g) = Some g"
  by (cases g) (simp_all add: mapping_lookup_def all_groups_def)

lemma all_groups_complete: "g \<in> set all_groups"
  by (cases g) (simp_all add: all_groups_def)

lemma fold_insert_set: "fold insert xs S = set xs \<union> S"
  by (induction xs arbitrary: S) auto

lemma import_groups_export:
  assumes "\<forall>g. set (enum (sg g)) = sg g"
  shows "import_groups (map (\<lambda>g. (group_token g, enum (sg g))) gs) sg0
         = (None, \<lambda>g. if g \<in> set gs then sg g \<union> sg0 g else sg0 g)"
proof (induction gs arbitrary: sg0)
  case Nil
  show ?case by simp
next
  case (Cons g gs)
  have "(\<lambda>h. if h \<in> set gs then sg h \<union> (sg0(g := fold insert (enum (sg g)) (sg0 g))) h
              else (sg0(g := fold insert (enum (sg g)) (sg0 g))) h)
        = (\<lambda>h. if h \<in> set (g # gs) then sg h \<union> sg0 h else sg0 h)"
    using assms by (auto simp: fun_eq_iff fold_insert_set)
  then show ?case by (simp add: mapping_lookup_token Cons.IH)
qed

lemma import_export_fresh:
  assumes "set (enum (fixed_users L)) = fixed_users L"
      and "\<forall>g. set (enum (special_groups L g)) = special_groups L g"
  shows "import_dict (new_userlist c) (export_dict enum L)
         = (None, (new_userlist c)\<lparr>fixed_users := fixed_users L,
                                  special_groups := special_groups L\<rparr>)"
proof -
  have "import_groups (map (\<lambda>g. (group_token g, enum (special_groups L g))) all_groups) (\<lambda>g. {})
        = (None, special_groups L)"
    using import_groups_export [OF assms(2), of all_groups "\<lambda>g. {}"]
    by (simp add: all_groups_complete)
  then show ?thesis
    using assms(1)
    by (simp add: import_dict_def export_dict_def new_userlist_def fold_insert_set)
qed

lemma is_in_any_subgroup_cong:
  assumes "special_groups ul' = special_groups ul"
  shows "is_in_any_subgroup ul' msg = is_in_any_subgroup ul msg"
  unfolding is_in_any_subgroup_def is_broadcaster_def is_mod_def is_vip_def is_subscribed_def
      is_tier3sub_def is_tier2sub_def is_tier1sub_def is_partner_def is_founder_def is_staff_def
      is_prime_def is_turbo_def is_user_def badge_check_def flag_check_def tier_check_def assms
  by (rule refl)

lemma warm_import:
  "snd (import_dict (new_userlist True) mods_snapshot)
   = \<lparr>cache_users = True, known_users = {}, included_users = {}, fixed_users = {},
      special_groups = (\<lambda>g. {})(mods := {''#c''})\<rparr>"
  by (simp add: import_dict_def new_userlist_def mods_snapshot_def mapping_lookup_def all_groups_def)

lemma only_mods:
  assumes "special_groups ul = (\<lambda>g. {})(mods := S)"
  shows "is_in_any_subgroup ul msg = Inr (is_mod ul msg)"
proof -
  have e: "special_groups ul broadcaster = {}" "special_groups ul vips = {}"
    "special_groups ul subs = {}" "special_groups ul tier3subs = {}"
    "special_groups ul tier2subs = {}" "special_groups ul tier1subs = {}"
    "special_groups ul partners = {}" "special_groups ul founders = {}"
    "special_groups ul staff = {}" "special_groups ul prime = {}"
    "special_groups ul turbo = {}" "special_groups ul users = {}"
    by (simp_all add: assms)
  have c: "is_broadcaster ul msg = False" "is_vip ul msg = False" "is_subscribed ul msg = False"
    "is_tier3sub ul msg = Inr False" "is_tier2sub ul msg = Inr False"
    "is_tier1sub ul msg = Inr False" "is_partner ul msg = False" "is_founder ul msg = False"
    "is_staff ul msg = False" "is_prime ul msg = False" "is_turbo ul msg = False"
    "is_user ul msg = False"
    by (simp_all add: e is_broadcaster_def is_vip_def is_subscribed_def
      is_tier3sub_def is_tier2sub_def is_tier1sub_def is_partner_def is_founder_def is_staff_def
      is_prime_def is_turbo_def is_user_def badge_check_def flag_check_def tier_check_def)
  show ?thesis by (simp add: is_in_any_subgroup_def c)
qed


lemma warm_userlist_eq:
  "warm_userlist =
     \<lparr>cache_users = True, known_users = {''u''}, included_users = {''u''}, fixed_users = {},
      special_groups = (\<lambda>g. {})(mods := {''#c''})\<rparr>"
proof -
  let ?L1 = "\<lparr>cache_users = True, known_users = {}, included_users = {}, fixed_users = {},
      special_groups = (\<lambda>g. {})(mods := {''#c''})\<rparr>"
  have s: "is_in_any_subgroup ?L1 mod_message = Inr True"
    by (simp add: only_mods [of _ "{''#c''}"] is_mod_def flag_check_def mod_message_def tags_get_def)
  show ?thesis
    unfolding warm_userlist_def warm_import
    by (simp add: message_in_list_def s) (simp add: mod_message_def)
qed

text \<open>
  C8, as amended. For every list \<open>L\<close>, importing its export into a freshly constructed list
  raises nothing and reproduces the fixed users and every group's channel set of \<open>L\<close>; and
  for every probe message whose user \<open>L\<close> has not cached (or when \<open>L\<close> does not cache), the
  fresh list gives the verdict of \<open>L\<close>, or raises the exception that \<open>L\<close> raises.
\<close>

theorem export_import_round_trip:
  assumes "set (enum (fixed_users L)) = fixed_users L"
      and "\<forall>g. set (enum (special_groups L g)) = special_groups L g"
      and "\<not> (cache_users L \<and> user msg \<in> known_users L)"
  shows "fst (import_dict (new_userlist c) (export_dict enum L)) = None
     \<and> fixed_users (snd (import_dict (new_userlist c) (export_dict enum L))) = fixed_users L
     \<and> special_groups (snd (import_dict (new_userlist c) (export_dict enum L))) = special_groups L
     \<and> fst (message_in_list (snd (import_dict (new_userlist c) (export_dict enum L))) msg)
       = fst (message_in_list L msg)"
proof -
  let ?L' = "(new_userlist c)\<lparr>fixed_users := fixed_users L, special_groups := special_groups L\<rparr>"
  have imp: "import_dict (new_userlist c) (export_dict enum L) = (None, ?L')"
    by (rule import_export_fresh [OF assms(1,2)])
  have sub: "is_in_any_subgroup ?L' msg = is_in_any_subgroup L msg"
    by (rule is_in_any_subgroup_cong) simp
  have "fst (message_in_list ?L' msg) = fst (message_in_list L msg)"
    using assms(3) sub
    by (auto simp: message_in_list_def new_userlist_def split: sum.splits)
  with imp show ?thesis by simp
qed

text \<open>
  The claim as written fails on a list with a warm cache: \<open>warm_userlist\<close> has cached the
  user as included after a moderator's message, and answers True for the same user's later
  message without the flag; the re-imported list has no cache and answers False.
\<close>

theorem export_import_round_trip_counterexample:
  "fst (message_in_list warm_userlist plain_message) = Inr True
   \<and> fst (message_in_list
            (snd (import_dict (new_userlist True) (export_dict sorted_list_of_set warm_userlist)))
            plain_message) = Inr False"
proof -
  have a: "fst (message_in_list warm_userlist plain_message) = Inr True"
    by (simp add: warm_userlist_eq message_in_list_def plain_message_def)
  have e: "set (sorted_list_of_set (fixed_users warm_userlist)) = fixed_users warm_userlist"
    by (simp add: warm_userlist_eq)
  have g: "\<forall>g. set (sorted_list_of_set (special_groups warm_userlist g)) = special_groups warm_userlist g"
    by (simp add: warm_userlist_eq)
  let ?L' = "(new_userlist True)\<lparr>fixed_users := fixed_users warm_userlist,
                               special_groups := special_groups warm_userlist\<rparr>"
  have i: "snd (import_dict (new_userlist True) (export_dict sorted_list_of_set warm_userlist)) = ?L'"
    by (simp add: import_export_fresh [OF e g])
  have s: "is_in_any_subgroup ?L' plain_message = Inr False"
    by (simp add: only_mods [of _ "{''#c''}"] warm_userlist_eq is_mod_def flag_check_def
        plain_message_def tags_get_def)
  have b: "fst (message_in_list ?L' plain_message) = Inr False"
    by (simp add: message_in_list_def s) (simp add: new_userlist_def warm_userlist_eq)
  from a b i show ?thesis by simp
qed

theorem export_import_round_trip_witness:
  "fst (message_in_list
          (snd (import_dict (new_userlist True) (export_dict sorted_list_of_set warm_userlist)))
          (plain_message\<lparr>user := ''v''\<rparr>))
     = Inr False
   \<and> fst (message_in_list warm_userlist (plain_message\<lparr>user := ''v''\<rparr>)) = Inr False"
proof -
  have e: "set (sorted_list_of_set (fixed_users warm_userlist)) = fixed_users warm_userlist"
    by (simp add: warm_userlist_eq)
  have g: "\<forall>g. set (sorted_list_of_set (special_groups warm_userlist g)) = special_groups warm_userlist g"
    by (simp add: warm_userlist_eq)
  have k: "\<not> (cache_users warm_userlist \<and> user (plain_message\<lparr>user := ''v''\<rparr>) \<in> known_users warm_userlist)"
    by (simp add: warm_userlist_eq)
  have s: "is_in_any_subgroup warm_userlist (plain_message\<lparr>user := ''v''\<rparr>) = Inr False"
    by (simp add: only_mods [of _ "{''#c''}"] warm_userlist_eq is_mod_def flag_check_def
        plain_message_def tags_get_def)
  have v: "fst (message_in_list warm_userlist (plain_message\<lparr>user := ''v''\<rparr>)) = Inr False"
    by (simp add: message_in_list_def s) (simp add: warm_userlist_eq)
  from export_import_round_trip [OF e g k, of True] v show ?thesis by simp
qed

subsection \<open>Queues and worker steps\<close>

lemma team_at_update_team:
  "team_at (update_team g i f) j = (if j = i \<and> i < length (all_teams g) then f (team_at g i) else team_at g j)"
  by (cases "i < length (all_teams g)")
     (auto simp: team_at_def update_team_def nth_list_update list_update_beyond)

lemma team_at_Users_add [simp]: "team_at (Users_add u i g) j = team_at g j"
  by (simp add: team_at_def Users_add_def)

lemma team_at_Users_discard [simp]: "team_at (Users_discard u g) j = team_at g j"
  by (simp add: team_at_def Users_discard_def)

lemma deque_append_bounded:
  "length q \<le> n \<Longrightarrow> deque_append n q x = (if length q = n then tl (q @ [x]) else q @ [x])"
  by (auto simp: deque_append_def Let_def)

text \<open>
  C3. For a team with \<^verbatim>\<open>spam_protection\<close>: when a queued message has the user and the text
  of \<open>msg\<close>, \<^verbatim>\<open>add_message\<close> changes nothing at all (and it cannot raise); otherwise
  \<open>msg\<close> is appended, and the oldest message leaves the queue when it already held
  \<^verbatim>\<open>queue_length\<close> entries.
\<close>

theorem add_message_spam_protection:
  assumes "i < length (all_teams g)"
      and "spam_protection (team_at g i)"
      and "length (message_queue (team_at g i)) \<le> queue_length (team_at g i)"
  shows "(if list_ex (\<lambda>m. user msg = user m \<and> message msg = message m) (message_queue (team_at g i))
          then add_message i msg g = g
          else message_queue (team_at (add_message i msg g) i)
               = (if length (message_queue (team_at g i)) = queue_length (team_at g i)
                  then tl (message_queue (team_at g i) @ [msg])
                  else message_queue (team_at g i) @ [msg]))"
  using assms
  by (simp add: add_message_def Let_def team_at_update_team deque_append_bounded)


theorem add_message_spam_protection_witness:
  "add_message 0 (left_message ''u'')
     \<lparr>all_teams = [(example_team ''A'')\<lparr>message_queue := [left_message ''u'']\<rparr>],
      all_users_dict = Map.empty, action_prefixes = {''+''}, state_accept_input = True,
      state_random_action = False, priority_messages = []\<rparr>
   = \<lparr>all_teams = [(example_team ''A'')\<lparr>message_queue := [left_message ''u'']\<rparr>],
      all_users_dict = Map.empty, action_prefixes = {''+''}, state_accept_input = True,
      state_random_action = False, priority_messages = []\<rparr>
   \<and> message_queue (team_at (add_message 0 (left_message ''w'')
        \<lparr>all_teams = [(example_team ''A'')\<lparr>message_queue := [left_message ''u'', left_message ''v'']\<rparr>],
         all_users_dict = Map.empty, action_prefixes = {''+''}, state_accept_input = True,
         state_random_action = False, priority_messages = []\<rparr>) 0)
     = [left_message ''v'', left_message ''w'']"
proof -
  let ?g = "\<lparr>all_teams = [(example_team ''A'')\<lparr>message_queue := [left_message ''u'']\<rparr>],
      all_users_dict = Map.empty, action_prefixes = {''+''}, state_accept_input = True,
      state_random_action = False, priority_messages = []\<rparr>"
  let ?h = "\<lparr>all_teams = [(example_team ''A'')\<lparr>message_queue := [left_message ''u'', left_message ''v'']\<rparr>],
         all_users_dict = Map.empty, action_prefixes = {''+''}, state_accept_input = True,
         state_random_action = False, priority_messages = []\<rparr>"
  have "add_message 0 (left_message ''u'') ?g = ?g"
    using add_message_spam_protection [of 0 ?g "left_message ''u''"]
    by (simp add: team_at_def example_team_def left_message_def)
  moreover have "message_queue (team_at (add_message 0 (left_message ''w'') ?h) 0)
     = [left_message ''v'', left_message ''w'']"
    using add_message_spam_protection [of 0 ?h "left_message ''w''"]
    by (simp add: team_at_def example_team_def left_message_def)
  ultimately show ?thesis by simp
qed

lemma translate_pop:
  assumes "message_queue t \<noteq> []"
  shows "translate_queued_message translate t =
     (let msg = last (message_queue t); t1 = t\<lparr>message_queue := butlast (message_queue t)\<rparr>
      in case translate msg of
           Inl e \<Rightarrow>
             if e = IndexError then
               (None, t1,
                [Acquire message_queue_lock, Pop_message, Translate msg,
                 Release message_queue_lock, Sleep])
             else
               (Some e, t1,
                [Acquire message_queue_lock, Pop_message, Translate msg,
                 Release message_queue_lock])
         | Inr None \<Rightarrow>
             (None, t1,
              [Acquire message_queue_lock, Pop_message, Translate msg,
               Release message_queue_lock])
         | Inr (Some func) \<Rightarrow>
             (None,
              t1\<lparr>action_queue := deque_append (queue_length t1) (action_queue t1) (msg, func),
                 message_queue := []\<rparr>,
              [Acquire message_queue_lock, Pop_message, Translate msg,
               Acquire action_queue_lock, Append_action, Release action_queue_lock,
               Clear_messages, Release message_queue_lock]))"
  using assms by (cases "message_queue t") (simp_all add: translate_queued_message_def)

text \<open>
  C2. When the translate step pops a message: if it translates into an action, exactly the
  pair of that message and the action is appended to the action queue (whose oldest pair
  leaves when the queue was full) and the message queue is empty afterwards; if it
  translates into no action, the action queue is unchanged and the other pending messages
  stay queued.
\<close>

theorem translate_step_one_survivor:
  assumes "message_queue t \<noteq> []"
      and "length (message_queue t) \<le> queue_length t"
      and "length (action_queue t) \<le> queue_length t"
      and "translate_queued_message translate t = (r, t', evs)"
  shows "(translate (last (message_queue t)) = Inr (Some func) \<longrightarrow>
            r = None \<and> message_queue t' = []
          \<and> action_queue t'
              = (if length (action_queue t) = queue_length t then tl (action_queue t)
                 else action_queue t) @ [(last (message_queue t), func)])
       \<and> (translate (last (message_queue t)) = Inr None \<longrightarrow>
            r = None \<and> action_queue t' = action_queue t
          \<and> message_queue t' = butlast (message_queue t))"
proof -
  from assms(1,2) have "0 < queue_length t" by (cases "message_queue t") auto
  with assms(3) have
    "deque_append (queue_length t) (action_queue t) x
       = (if length (action_queue t) = queue_length t then tl (action_queue t)
          else action_queue t) @ [x]" for x
    by (cases "action_queue t") (auto simp: deque_append_bounded)
  with assms(4) show ?thesis
    unfolding translate_pop [OF assms(1)] by (auto simp: Let_def)
qed

lemma example_translate_left:
  "translate_user_message_to_action findall_left example_actionset (left_message u)
   = Inr (Some (press_multiple_Keys 0
       [\<lparr>arg_key = ''DPAD_LEFT'', arg_delay = 0, arg_duration = 100\<rparr>]))"
proof -
  have l: "py_lower ''+left'' = ''+left''" by code_simp
  have c: "message_is_command example_actionset (left_message u)"
    by (simp add: message_is_command_def startswith_def example_actionset_def left_message_def)
  have r: "translate_regex_results example_actionset [(''+left'', '''', '''')] []
      = Inr [\<lparr>arg_key = ''DPAD_LEFT'', arg_delay = 0, arg_duration = 100\<rparr>]"
    by (simp add: example_actionset_def example_verb_param_def translate_verb_def verb_body_def
        lookup_verb_def sub_action_def param_int_def gamepad_translate_verb_parameters_to_key_def
        clamp_def)
  have p: "player_index example_actionset = 0" by (simp add: example_actionset_def)
  have f: "findall_left (py_lower ''+left'') = [(''+left'', '''', '''')]"
    by (simp add: l findall_left_def)
  have a: "translate_message_contents_to_args_list findall_left example_actionset ''+left''
      = Inr [\<lparr>arg_key = ''DPAD_LEFT'', arg_delay = 0, arg_duration = 100\<rparr>]"
    unfolding translate_message_contents_to_args_list_def f by (rule r)
  have m: "message (left_message u) = ''+left''" by (simp add: left_message_def)
  show ?thesis
    by (simp add: translate_user_message_to_action_def c build_partial_def m a p)
qed

theorem translate_step_one_survivor_witness:
  "translate_queued_message (translate_user_message_to_action findall_left example_actionset)
     ((example_team ''A'')\<lparr>message_queue := [left_message ''u'', left_message ''v'']\<rparr>)
   = (None,
      (example_team ''A'')\<lparr>message_queue := [],
         action_queue := [(left_message ''v'', press_multiple_Keys 0
            [\<lparr>arg_key = ''DPAD_LEFT'', arg_delay = 0, arg_duration = 100\<rparr>])]\<rparr>,
      [Acquire message_queue_lock, Pop_message, Translate (left_message ''v''),
       Acquire action_queue_lock, Append_action, Release action_queue_lock,
       Clear_messages, Release message_queue_lock])"
proof -
  let ?t = "(example_team ''A'')\<lparr>message_queue := [left_message ''u'', left_message ''v'']\<rparr>"
  let ?tr = "translate_user_message_to_action findall_left example_actionset"
  obtain r t' evs where e: "translate_queued_message ?tr ?t = (r, t', evs)"
    by (cases "translate_queued_message ?tr ?t")
  have q: "message_queue ?t \<noteq> []" "length (message_queue ?t) \<le> queue_length ?t"
    "length (action_queue ?t) \<le> queue_length ?t"
    by (simp_all add: example_team_def)
  have l: "last (message_queue ?t) = left_message ''v''" by simp
  from translate_step_one_survivor [OF q e, of "press_multiple_Keys 0
            [\<lparr>arg_key = ''DPAD_LEFT'', arg_delay = 0, arg_duration = 100\<rparr>]"]
  have "message_queue t' = []"
    "action_queue t' = [(left_message ''v'', press_multiple_Keys 0
            [\<lparr>arg_key = ''DPAD_LEFT'', arg_delay = 0, arg_duration = 100\<rparr>])]"
    unfolding l by (simp_all add: example_translate_left example_team_def)
  with e show ?thesis
    by (simp add: translate_queued_message_def example_translate_left deque_append_def
        example_team_def Let_def)
qed

lemma held_simps:
  "held l [] = False"
  "held l (evs @ [e]) = (if e = Acquire l then True else if e = Release l then False else held l evs)"
  by (simp_all add: held_def)

text \<open>
  C4, as amended. In the translate step the translation call runs with the message-queue
  lock held (and the action-queue lock free); in the execute step the call of the input
  server runs with neither lock held.
\<close>

theorem lock_scope_of_worker_steps:
  "(translate_queued_message translate t = (r, t', pre @ Translate m # post)
      \<longrightarrow> held message_queue_lock pre \<and> \<not> held action_queue_lock pre)
   \<and> (execute_queued_action execute g random_action t = (r, t', pre @ Execute func # post)
      \<longrightarrow> \<not> held action_queue_lock pre \<and> \<not> held message_queue_lock pre)"
proof (intro conjI impI)
  assume a: "translate_queued_message translate t = (r, t', pre @ Translate m # post)"
  then have "pre = [Acquire message_queue_lock, Pop_message]"
    by (auto simp: translate_queued_message_def Let_def append_eq_Cons_conv Cons_eq_append_conv
        split: list.splits sum.splits option.splits if_splits)
  then show "held message_queue_lock pre" "\<not> held action_queue_lock pre"
    by (simp_all add: held_def)
next
  assume a: "execute_queued_action execute g random_action t = (r, t', pre @ Execute func # post)"
  then have "pre = [Acquire action_queue_lock, Pop_action, Release action_queue_lock]
     \<or> (\<exists>msg. pre = [Acquire action_queue_lock, Pop_action, Log_executed msg, Clear_actions,
                  Release action_queue_lock])"
    by (auto simp: execute_queued_action_def send_to_input_server_def Let_def
        append_eq_Cons_conv Cons_eq_append_conv append_eq_append_conv2
        split: list.splits sum.splits option.splits if_splits prod.splits)
  then show "\<not> held action_queue_lock pre" "\<not> held message_queue_lock pre"
    by (auto simp: held_def)
qed

text \<open>
  The claim as written fails for the translate loop: the message-queue lock acquired
  before the pop is still held when the translation is called.
\<close>

theorem lock_scope_counterexample:
  "snd (snd (translate_queued_message
               (translate_user_message_to_action findall_left example_actionset)
               ((example_team ''A'')\<lparr>message_queue := [left_message ''u'']\<rparr>)))
   = [Acquire message_queue_lock, Pop_message] @ Translate (left_message ''u'')
     # [Acquire action_queue_lock, Append_action, Release action_queue_lock,
        Clear_messages, Release message_queue_lock]
   \<and> held message_queue_lock [Acquire message_queue_lock, Pop_message]"
  by (simp add: translate_queued_message_def example_translate_left held_def Let_def)


theorem lock_scope_of_worker_steps_witness:
  "translate_queued_message (translate_user_message_to_action findall_left example_actionset)
     ((example_team ''A'')\<lparr>message_queue := [left_message ''u'']\<rparr>)
   = (None,
      (example_team ''A'')\<lparr>message_queue := [],
         action_queue := [(left_message ''u'', press_multiple_Keys 0
            [\<lparr>arg_key = ''DPAD_LEFT'', arg_delay = 0, arg_duration = 100\<rparr>])]\<rparr>,
      [Acquire message_queue_lock, Pop_message] @ Translate (left_message ''u'')
       # [Acquire action_queue_lock, Append_action, Release action_queue_lock,
          Clear_messages, Release message_queue_lock])
   \<and> held message_queue_lock [Acquire message_queue_lock, Pop_message]
   \<and> execute_queued_action accepting_input_server example_global_data (Inr sleep_EMPTY_QUEUE)
       ((example_team ''A'')\<lparr>action_queue := [(left_message ''u'', sleep_EMPTY_QUEUE)]\<rparr>)
     = (None, example_team ''A'',
        [Acquire action_queue_lock, Pop_action, Log_executed (left_message ''u''), Clear_actions,
         Release action_queue_lock] @ Execute sleep_EMPTY_QUEUE # [])
   \<and> \<not> held action_queue_lock
         [Acquire action_queue_lock, Pop_action, Log_executed (left_message ''u''), Clear_actions,
          Release action_queue_lock]"
proof -
  have t: "translate_queued_message (translate_user_message_to_action findall_left example_actionset)
     ((example_team ''A'')\<lparr>message_queue := [left_message ''u'']\<rparr>)
   = (None,
      (example_team ''A'')\<lparr>message_queue := [],
         action_queue := [(left_message ''u'', press_multiple_Keys 0
            [\<lparr>arg_key = ''DPAD_LEFT'', arg_delay = 0, arg_duration = 100\<rparr>])]\<rparr>,
      [Acquire message_queue_lock, Pop_message] @ Translate (left_message ''u'')
       # [Acquire action_queue_lock, Append_action, Release action_queue_lock,
          Clear_messages, Release message_queue_lock])"
    by (simp add: translate_queued_message_def example_translate_left deque_append_def
        example_team_def Let_def)
  have e: "execute_queued_action accepting_input_server example_global_data (Inr sleep_EMPTY_QUEUE)
       ((example_team ''A'')\<lparr>action_queue := [(left_message ''u'', sleep_EMPTY_QUEUE)]\<rparr>)
     = (None, example_team ''A'',
        [Acquire action_queue_lock, Pop_action, Log_executed (left_message ''u''), Clear_actions,
         Release action_queue_lock] @ Execute sleep_EMPTY_QUEUE # [])"
    by (simp add: execute_queued_action_def send_to_input_server_def accepting_input_server_def
        example_team_def)
  from lock_scope_of_worker_steps [THEN conjunct1, rule_format, OF t]
    lock_scope_of_worker_steps [THEN conjunct2, rule_format, OF e] t e
  show ?thesis by simp
qed

subsection \<open>The router\<close>

lemma all_teams_Users [simp]:
  "all_teams (Users_add u i g) = all_teams g" "all_teams (Users_discard u g) = all_teams g"
  by (simp_all add: Users_add_def Users_discard_def)

lemma length_update_team [simp]: "length (all_teams (update_team g i f)) = length (all_teams g)"
  by (simp add: update_team_def)

lemma globals_update_team [simp]:
  "action_prefixes (update_team g i f) = action_prefixes g"
  "state_accept_input (update_team g i f) = state_accept_input g"
  "state_random_action (update_team g i f) = state_random_action g"
  "priority_messages (update_team g i f) = priority_messages g"
  "all_users_dict (update_team g i f) = all_users_dict g"
  by (simp_all add: update_team_def)

lemma globals_Users [simp]:
  "action_prefixes (Users_add u i g) = action_prefixes g"
  "state_accept_input (Users_add u i g) = state_accept_input g"
  "state_random_action (Users_add u i g) = state_random_action g"
  "priority_messages (Users_add u i g) = priority_messages g"
  "all_users_dict (Users_add u i g) = (all_users_dict g)(u \<mapsto> i)"
  "action_prefixes (Users_discard u g) = action_prefixes g"
  "state_accept_input (Users_discard u g) = state_accept_input g"
  "state_random_action (Users_discard u g) = state_random_action g"
  "priority_messages (Users_discard u g) = priority_messages g"
  "all_users_dict (Users_discard u g) = (all_users_dict g)(u := None)"
  by (simp_all add: Users_add_def Users_discard_def)

lemma evicts_refl: "evicts g g"
  by (simp add: evicts_def)

lemma evicts_trans:
  assumes "evicts g g1" and "evicts g1 g2"
  shows "evicts g g2"
proof -
  have "team_at g2 k
          = (team_at g k)\<lparr>members := members (team_at g2 k),
                           user_whitelist := user_whitelist (team_at g2 k),
                           user_blacklist := user_blacklist (team_at g2 k)\<rparr>
        \<and> members (team_at g2 k) \<subseteq> members (team_at g k)" for k
  proof -
    from assms(1) have a: "team_at g1 k
          = (team_at g k)\<lparr>members := members (team_at g1 k),
                           user_whitelist := user_whitelist (team_at g1 k),
                           user_blacklist := user_blacklist (team_at g1 k)\<rparr>"
      and a': "members (team_at g1 k) \<subseteq> members (team_at g k)"
      by (simp_all add: evicts_def)
    from assms(2) have b: "team_at g2 k
          = (team_at g1 k)\<lparr>members := members (team_at g2 k),
                           user_whitelist := user_whitelist (team_at g2 k),
                           user_blacklist := user_blacklist (team_at g2 k)\<rparr>"
      and b': "members (team_at g2 k) \<subseteq> members (team_at g1 k)"
      by (simp_all add: evicts_def)
    have "team_at g2 k
          = (team_at g k)\<lparr>members := members (team_at g2 k),
                           user_whitelist := user_whitelist (team_at g2 k),
                           user_blacklist := user_blacklist (team_at g2 k)\<rparr>"
      by (subst b, subst a) simp
    with a' b' show ?thesis by blast
  qed
  moreover have "all_users_dict g2 \<subseteq>\<^sub>m all_users_dict g"
    using assms by (auto simp: evicts_def intro: map_le_trans)
  ultimately show ?thesis using assms by (simp add: evicts_def)
qed

lemma evicts_update_blacklist: "evicts g (update_team g i (\<lambda>t. t\<lparr>user_blacklist := ul\<rparr>))"
  by (simp add: evicts_def team_at_update_team)

lemma evicts_update_whitelist: "evicts g (update_team g i (\<lambda>t. t\<lparr>user_whitelist := ul\<rparr>))"
  by (simp add: evicts_def team_at_update_team)

lemma evicts_kick_out: "evicts g (kick_out i msg g)"
  by (auto simp: evicts_def kick_out_def team_at_update_team map_le_def)

lemma in_blacklist_evicts: "in_blacklist i msg g = (r, g') \<Longrightarrow> evicts g g'"
  by (auto simp: in_blacklist_def evicts_update_blacklist split: prod.splits)

lemma in_whitelist_evicts: "in_whitelist i msg g = (r, g') \<Longrightarrow> evicts g g'"
  by (auto simp: in_whitelist_def evicts_update_whitelist split: prod.splits)

lemma Team_blocked_evicts: "Team_blocked_from_team i msg g = (r, g') \<Longrightarrow> evicts g g'"
  by (auto simp: Team_blocked_from_team_def split: prod.splits sum.splits if_splits
      dest!: in_blacklist_evicts intro: evicts_trans evicts_kick_out)

lemma blocked_evicts: "blocked_from_team i msg g = (r, g') \<Longrightarrow> evicts g g'"
  by (auto simp: blocked_from_team_def split: prod.splits sum.splits if_splits bool.splits
      dest!: Team_blocked_evicts in_whitelist_evicts intro: evicts_trans evicts_kick_out)

lemma Team_belongs_evicts: "Team_belongs_to_team i msg g = (r, g') \<Longrightarrow> evicts g g'"
  by (auto simp: Team_belongs_to_team_def evicts_refl split: prod.splits sum.splits if_splits
      dest!: in_whitelist_evicts)

lemma belongs_evicts: "belongs_to_team i msg g = (r, g') \<Longrightarrow> evicts g g'"
  by (auto simp: belongs_to_team_def private_belongs_to_team_def
      split: prod.splits sum.splits if_splits dest!: Team_belongs_evicts)

lemma attempt_not_admitted:
  "add_message_to_team msg i g = (r, g') \<Longrightarrow> r \<noteq> Inr True \<Longrightarrow> evicts g g'"
  by (auto simp: add_message_to_team_def evicts_refl
      split: prod.splits sum.splits if_splits bool.splits
      dest!: blocked_evicts belongs_evicts intro: evicts_trans)

lemma attempt_admitted:
  assumes "add_message_to_team msg i g = (Inr True, g')"
  shows "channel msg \<in> channels (team_at g i)
       \<and> message_is_command (actionset (team_at g i)) msg
       \<and> (\<exists>g1 g2. blocked_from_team i msg g = (Inr False, g1)
              \<and> belongs_to_team i msg g1 = (Inr True, g2)
              \<and> evicts g g2 \<and> g' = add_message i msg g2)"
  using assms
  by (auto simp: add_message_to_team_def
      split: prod.splits sum.splits if_splits bool.splits
      dest: blocked_evicts belongs_evicts intro: evicts_trans)

lemma evicts_queue: "evicts g g' \<Longrightarrow> message_queue (team_at g' k) = message_queue (team_at g k)"
proof -
  assume "evicts g g'"
  then have "team_at g' k
               = (team_at g k)\<lparr>members := members (team_at g' k),
                                user_whitelist := user_whitelist (team_at g' k),
                                user_blacklist := user_blacklist (team_at g' k)\<rparr>"
    by (simp add: evicts_def)
  then have "message_queue (team_at g' k)
     = message_queue ((team_at g k)\<lparr>members := members (team_at g' k),
                                user_whitelist := user_whitelist (team_at g' k),
                                user_blacklist := user_blacklist (team_at g' k)\<rparr>)"
    by simp
  then show ?thesis by simp
qed

lemma evicts_channels: "evicts g g' \<Longrightarrow> channels (team_at g' k) = channels (team_at g k)"
proof -
  assume "evicts g g'"
  then have "team_at g' k
               = (team_at g k)\<lparr>members := members (team_at g' k),
                                user_whitelist := user_whitelist (team_at g' k),
                                user_blacklist := user_blacklist (team_at g' k)\<rparr>"
    by (simp add: evicts_def)
  then have "channels (team_at g' k)
     = channels ((team_at g k)\<lparr>members := members (team_at g' k),
                                user_whitelist := user_whitelist (team_at g' k),
                                user_blacklist := user_blacklist (team_at g' k)\<rparr>)"
    by simp
  then show ?thesis by simp
qed

lemma evicts_length: "evicts g g' \<Longrightarrow> length (all_teams g') = length (all_teams g)"
  by (simp add: evicts_def)

lemma add_message_other_queue:
  "k \<noteq> i \<Longrightarrow> message_queue (team_at (add_message i msg g) k) = message_queue (team_at g k)"
  by (simp add: add_message_def Let_def team_at_update_team)

lemma add_message_channels:
  "channels (team_at (add_message i msg g) k) = channels (team_at g k)"
  by (simp add: add_message_def Let_def team_at_update_team)

lemma add_message_length:
  "length (all_teams (add_message i msg g)) = length (all_teams g)"
  by (simp add: add_message_def Let_def)

lemma attempt_frame:
  assumes "add_message_to_team msg i g = (r, g')"
  shows "length (all_teams g') = length (all_teams g)
       \<and> (\<forall>k. channels (team_at g' k) = channels (team_at g k))
       \<and> (\<forall>k. k \<noteq> i \<or> channel msg \<notin> channels (team_at g k)
              \<longrightarrow> message_queue (team_at g' k) = message_queue (team_at g k))"
proof (cases "r = Inr True")
  case False
  with assms have "evicts g g'" by (rule attempt_not_admitted)
  then show ?thesis by (simp add: evicts_queue evicts_channels evicts_length)
next
  case True
  with assms attempt_admitted [of msg i g g'] obtain g2 where
    c: "channel msg \<in> channels (team_at g i)" and e: "evicts g g2"
    and g': "g' = add_message i msg g2" by blast
  show ?thesis
    using c e unfolding g'
    by (auto simp: add_message_other_queue add_message_channels add_message_length
        evicts_queue evicts_channels evicts_length)
qed

lemma scan_frame:
  "scan_teams msg is g = (d, g') \<Longrightarrow>
     length (all_teams g') = length (all_teams g)
   \<and> (\<forall>k. channels (team_at g' k) = channels (team_at g k))
   \<and> (\<forall>k. channel msg \<notin> channels (team_at g k)
          \<longrightarrow> message_queue (team_at g' k) = message_queue (team_at g k))"
proof (induction "is" arbitrary: g)
  case Nil
  then show ?case by simp
next
  case (Cons i rest)
  obtain r g1 where a: "add_message_to_team msg i g = (r, g1)"
    by (cases "add_message_to_team msg i g")
  note f = attempt_frame [OF a]
  show ?case
  proof (cases "r = Inr False")
    case True
    with Cons.prems a have "scan_teams msg rest g1 = (d, g')" by simp
    from Cons.IH [OF this] f show ?thesis by simp
  next
    case False
    with Cons.prems a have "g' = g1"
      by (auto split: sum.splits bool.splits)
    with f show ?thesis by auto
  qed
qed

lemma upt_split: "[0..<n] = pre @ i # post \<Longrightarrow> pre = [0..<i]"
proof -
  assume a: "[0..<n] = pre @ i # post"
  then have "length [0..<n] = length (pre @ i # post)" by simp
  then have l: "length pre < n" by simp
  from a have "[0..<n] ! length pre = (pre @ i # post) ! length pre" by simp
  with l have i: "i = length pre" by simp
  from a have "take (length pre) [0..<n] = take (length pre) (pre @ i # post)" by simp
  with l i show ?thesis by (simp add: take_upt)
qed


lemma scan_step:
  assumes "add_message_to_team msg i g = (r, g1)"
  shows "scan_teams msg (i # rest) g =
     (case r of Inl e \<Rightarrow> (Raised e, g1)
      | Inr b \<Rightarrow> if b then (Admitted i, g1) else scan_teams msg rest g1)"
  using assms by (simp split: sum.splits bool.splits)

lemma scan_dropped_evicts:
  "scan_teams msg is g = (d, g') \<Longrightarrow> (\<forall>i. d \<noteq> Admitted i) \<Longrightarrow> evicts g g'"
proof (induction "is" arbitrary: g)
  case Nil
  then show ?case by (simp add: evicts_refl)
next
  case (Cons i rest)
  obtain r g1 where a: "add_message_to_team msg i g = (r, g1)"
    by (cases "add_message_to_team msg i g")
  note s = scan_step [OF a, of rest]
  show ?case
  proof (cases r)
    case (Inl e)
    with a have "evicts g g1" by (auto intro: attempt_not_admitted)
    moreover from Cons.prems(1) s Inl have "g' = g1" by simp
    ultimately show ?thesis by simp
  next
    case (Inr b)
    show ?thesis
    proof (cases b)
      case True
      with Cons.prems s Inr show ?thesis by simp
    next
      case False
      with a Inr have e: "evicts g g1" by (auto intro: attempt_not_admitted)
      from Cons.prems(1) s Inr False have "scan_teams msg rest g1 = (d, g')" by simp
      from e Cons.IH [OF this Cons.prems(2)] show ?thesis by (rule evicts_trans)
    qed
  qed
qed


lemma scan_admitted_split:
  "scan_teams msg is g = (Admitted i, g') \<Longrightarrow>
   \<exists>pre post g2. is = pre @ i # post \<and> scan_teams msg pre g = (Dropped, g2)
      \<and> add_message_to_team msg i g2 = (Inr True, g')"
proof (induction "is" arbitrary: g)
  case Nil
  then show ?case by simp
next
  case (Cons j rest)
  obtain r g1 where a: "add_message_to_team msg j g = (r, g1)"
    by (cases "add_message_to_team msg j g")
  note s = scan_step [OF a, of rest]
  show ?case
  proof (cases r)
    case (Inl e)
    with Cons.prems s show ?thesis by simp
  next
    case (Inr b)
    show ?thesis
    proof (cases b)
      case True
      with Cons.prems s Inr have "j = i" "g1 = g'" by simp_all
      with a Inr True have "j # rest = [] @ i # rest" "scan_teams msg [] g = (Dropped, g)"
        "add_message_to_team msg i g = (Inr True, g')" by simp_all
      then show ?thesis by blast
    next
      case False
      with Cons.prems s Inr have "scan_teams msg rest g1 = (Admitted i, g')" by simp
      from Cons.IH [OF this] obtain pre post g2 where
        p: "rest = pre @ i # post" "scan_teams msg pre g1 = (Dropped, g2)"
          "add_message_to_team msg i g2 = (Inr True, g')" by blast
      have "j # rest = (j # pre) @ i # post" using p(1) by simp
      moreover have "scan_teams msg (j # pre) g = (Dropped, g2)"
        using scan_step [OF a, of pre] Inr False p(2) by simp
      ultimately show ?thesis using p(3) by blast
    qed
  qed
qed

lemma scan_upt_admitted:
  assumes "scan_teams msg [0..<n] g = (Admitted i, g')"
  shows "\<exists>g2. scan_teams msg [0..<i] g = (Dropped, g2)
          \<and> add_message_to_team msg i g2 = (Inr True, g')"
proof -
  from scan_admitted_split [OF assms] obtain pre post g2 where
    p: "[0..<n] = pre @ i # post" "scan_teams msg pre g = (Dropped, g2)"
       "add_message_to_team msg i g2 = (Inr True, g')" by blast
  from upt_split [OF p(1)] have "pre = [0..<i]" .
  with p(2,3) show ?thesis by blast
qed

lemma attempt_admitted_others:
  assumes "add_message_to_team msg i g = (Inr True, g')" and "k \<noteq> i"
  shows "message_queue (team_at g' k) = message_queue (team_at g k)"
  using attempt_frame [OF assms(1)] assms(2) by blast

lemma scan_admitted_others:
  assumes "scan_teams msg [0..<n] g = (Admitted i, g')" and "k \<noteq> i"
  shows "message_queue (team_at g' k) = message_queue (team_at g k)"
proof -
  from scan_upt_admitted [OF assms(1)] obtain g2 where
    g2: "scan_teams msg [0..<i] g = (Dropped, g2)"
        "add_message_to_team msg i g2 = (Inr True, g')" by blast
  from scan_dropped_evicts [OF g2(1)] have "evicts g g2" by simp
  then have "message_queue (team_at g2 k) = message_queue (team_at g k)" by (rule evicts_queue)
  with attempt_admitted_others [OF g2(2) assms(2)] show ?thesis by simp
qed


lemma router_closed:
  "\<not> (state_accept_input g \<and> message_is_action g msg) \<Longrightarrow>
   add_message_to_assigned_team msg g = (Dropped, g)"
  by (auto simp: add_message_to_assigned_team_def)

lemma router_no_registry:
  "state_accept_input g \<and> message_is_action g msg \<Longrightarrow> get_team g (user msg) = None \<Longrightarrow>
   add_message_to_assigned_team msg g = scan_teams msg [0..<length (all_teams g)] g"
  by (simp add: add_message_to_assigned_team_def)

lemma router_registry:
  "state_accept_input g \<and> message_is_action g msg \<Longrightarrow> get_team g (user msg) = Some j \<Longrightarrow>
   add_message_to_team msg j g = (r1, g1) \<Longrightarrow>
   add_message_to_assigned_team msg g =
     (case r1 of Inl e \<Rightarrow> (Raised e, g1)
      | Inr b \<Rightarrow> if b then (Admitted j, g1)
                 else scan_teams msg [0..<length (all_teams g1)] g1)"
  by (simp add: add_message_to_assigned_team_def split: sum.splits bool.splits)

lemma router_dropped:
  assumes "add_message_to_assigned_team msg g = (Dropped, g')"
  shows "evicts g g'"
proof (cases "state_accept_input g \<and> message_is_action g msg")
  case False
  from router_closed [OF this] assms show ?thesis by (simp add: evicts_refl)
next
  case gate: True
  show ?thesis
  proof (cases "get_team g (user msg)")
    case None
    from router_no_registry [OF gate None] assms
    have "scan_teams msg [0..<length (all_teams g)] g = (Dropped, g')" by simp
    from scan_dropped_evicts [OF this] show ?thesis by simp
  next
    case (Some j)
    obtain r1 g1 where a1: "add_message_to_team msg j g = (r1, g1)"
      by (cases "add_message_to_team msg j g")
    note r = router_registry [OF gate Some a1]
    show ?thesis
    proof (cases r1)
      case (Inl e)
      with r assms show ?thesis by simp
    next
      case (Inr b)
      show ?thesis
      proof (cases b)
        case True
        with r assms Inr show ?thesis by simp
      next
        case False
        with a1 Inr have e: "evicts g g1" by (auto intro: attempt_not_admitted)
        from r assms Inr False
        have "scan_teams msg [0..<length (all_teams g1)] g1 = (Dropped, g')" by simp
        from scan_dropped_evicts [OF this] have "evicts g1 g'" by simp
        with e show ?thesis by (rule evicts_trans)
      qed
    qed
  qed
qed

lemma router_admitted:
  assumes "add_message_to_assigned_team msg g = (Admitted i, g')"
  shows "(\<forall>k. k \<noteq> i \<longrightarrow> message_queue (team_at g' k) = message_queue (team_at g k))
       \<and> ((get_team g (user msg) = Some i \<and> add_message_to_team msg i g = (Inr True, g'))
          \<or> (\<exists>g1 g2.
                (get_team g (user msg) = None \<and> g1 = g
                 \<or> (\<exists>j. get_team g (user msg) = Some j
                        \<and> add_message_to_team msg j g = (Inr False, g1)))
              \<and> scan_teams msg [0..<i] g1 = (Dropped, g2)
              \<and> add_message_to_team msg i g2 = (Inr True, g')))"
proof (cases "state_accept_input g \<and> message_is_action g msg")
  case False
  from router_closed [OF this] assms show ?thesis by simp
next
  case gate: True
  show ?thesis
  proof (cases "get_team g (user msg)")
    case None
    from router_no_registry [OF gate None] assms
    have s: "scan_teams msg [0..<length (all_teams g)] g = (Admitted i, g')" by simp
    from scan_upt_admitted [OF s] obtain g2 where
      "scan_teams msg [0..<i] g = (Dropped, g2)"
      "add_message_to_team msg i g2 = (Inr True, g')" by blast
    with None scan_admitted_others [OF s] show ?thesis by blast
  next
    case (Some j)
    obtain r1 g1 where a1: "add_message_to_team msg j g = (r1, g1)"
      by (cases "add_message_to_team msg j g")
    note r = router_registry [OF gate Some a1]
    show ?thesis
    proof (cases r1)
      case (Inl e)
      with r assms show ?thesis by simp
    next
      case (Inr b)
      show ?thesis
      proof (cases b)
        case True
        with r assms Inr have "j = i" "g1 = g'" by simp_all
        with a1 Inr True have a: "add_message_to_team msg i g = (Inr True, g')" by simp
        have "message_queue (team_at g' k) = message_queue (team_at g k)" if "k \<noteq> i" for k
          using attempt_admitted_others [OF a that] .
        moreover from Some \<open>j = i\<close> have "get_team g (user msg) = Some i" by simp
        ultimately show ?thesis using a by blast
      next
        case False
        with a1 Inr have a1': "add_message_to_team msg j g = (Inr False, g1)" by simp
        then have e: "evicts g g1" by (auto intro: attempt_not_admitted)
        from r assms Inr False
        have s: "scan_teams msg [0..<length (all_teams g1)] g1 = (Admitted i, g')" by simp
        from scan_upt_admitted [OF s] obtain g2 where
          g2: "scan_teams msg [0..<i] g1 = (Dropped, g2)"
          "add_message_to_team msg i g2 = (Inr True, g')" by blast
        have "message_queue (team_at g' k) = message_queue (team_at g k)" if "k \<noteq> i" for k
          using scan_admitted_others [OF s that] evicts_queue [OF e, of k] by simp
        with Some a1' g2 show ?thesis by blast
      qed
    qed
  qed
qed

lemma evictsD:
  "evicts g g' \<Longrightarrow>
     length (all_teams g') = length (all_teams g)
     \<and> all_users_dict g' \<subseteq>\<^sub>m all_users_dict g
     \<and> (\<forall>k. team_at g' k
              = (team_at g k)\<lparr>members := members (team_at g' k),
                               user_whitelist := user_whitelist (team_at g' k),
                               user_blacklist := user_blacklist (team_at g' k)\<rparr>
            \<and> members (team_at g' k) \<subseteq> members (team_at g k))"
  by (simp add: evicts_def)

subsection \<open>Example evaluations\<close>

lemma example_team_fields:
  "name (example_team n) = n" "variant (example_team n) = Default_Team"
  "channels (example_team n) = {''#c''}" "actionset (example_team n) = example_actionset"
  "exclusive (example_team n)" "spam_protection (example_team n)"
  "joinable (example_team n)" "leavable (example_team n)"
  "user_whitelist (example_team n) = new_userlist True"
  "user_blacklist (example_team n) = new_userlist True"
  "members (example_team n) = {}" "queue_length (example_team n) = 2"
  "message_queue (example_team n) = []" "action_queue (example_team n) = []"
  "bot (example_team n) = Some [''#c'']"
  by (simp_all add: example_team_def)

lemma no_groups_no_subgroup:
  assumes "special_groups ul = (\<lambda>g. {})"
  shows "is_in_any_subgroup ul msg = Inr False"
proof -
  have "special_groups ul = (\<lambda>g. {})(mods := {})" using assms by auto
  from only_mods [OF this] show ?thesis
    by (simp add: is_mod_def flag_check_def assms)
qed

lemma unknown_user_not_in_list:
  assumes "special_groups ul = (\<lambda>g. {})" and "fixed_users ul = {}"
      and "user msg \<notin> known_users ul"
  shows "message_in_list ul msg = (Inr False, ul\<lparr>known_users := insert (user msg) (known_users ul)\<rparr>)"
  using assms by (simp add: message_in_list_def no_groups_no_subgroup)

lemma known_user_cached:
  assumes "cache_users ul" and "user msg \<in> known_users ul"
  shows "message_in_list ul msg = (Inr (user msg \<in> included_users ul), ul)"
  using assms by (simp add: message_in_list_def)

lemma left_message_fields:
  "user (left_message u) = u" "channel (left_message u) = ''#c''"
  "message (left_message u) = ''+left''" "tags (left_message u) = Map.empty"
  by (simp_all add: left_message_def)

lemma left_is_command: "message_is_command example_actionset (left_message u)"
  by (simp add: message_is_command_def startswith_def example_actionset_def left_message_def)


lemma example_teams:
  "all_teams example_global_data = [example_team ''A'', example_team ''B'']"
  "all_users_dict example_global_data = Map.empty"
  "action_prefixes example_global_data = {''+''}"
  "state_accept_input example_global_data"
  by (simp_all add: example_global_data_def)

text \<open>
  C10. A message whose channel is not among a team's channels is refused by
  \<^verbatim>\<open>__add_message_to_team\<close> for that team without any change of state, whoever its user
  is; and a call of the router leaves the message queue of every such team as it was.
\<close>

theorem channel_gate:
  assumes "channel msg \<notin> channels (team_at g i)"
  shows "add_message_to_team msg i g = (Inr False, g)
       \<and> message_queue (team_at (snd (add_message_to_assigned_team msg g)) i)
         = message_queue (team_at g i)"
proof -
  have a: "add_message_to_team msg i g = (Inr False, g)"
    using assms by (simp add: add_message_to_team_def)
  obtain d g' where r: "add_message_to_assigned_team msg g = (d, g')"
    by (cases "add_message_to_assigned_team msg g")
  have "message_queue (team_at g' i) = message_queue (team_at g i)"
  proof (cases "state_accept_input g \<and> message_is_action g msg")
    case False
    with r show ?thesis by (simp add: add_message_to_assigned_team_def)
  next
    case gate: True
    show ?thesis
    proof (cases "get_team g (user msg)")
      case None
      with r gate have "scan_teams msg [0..<length (all_teams g)] g = (d, g')"
        by (simp add: add_message_to_assigned_team_def)
      from scan_frame [OF this] assms show ?thesis by simp
    next
      case (Some j)
      obtain r1 g1 where a1: "add_message_to_team msg j g = (r1, g1)"
        by (cases "add_message_to_team msg j g")
      note f = attempt_frame [OF a1]
      show ?thesis
      proof (cases "r1 = Inr False")
        case True
        with r gate Some a1 have "scan_teams msg [0..<length (all_teams g1)] g1 = (d, g')"
          by (simp add: add_message_to_assigned_team_def)
        from scan_frame [OF this] f assms show ?thesis by simp
      next
        case False
        with r gate Some a1 have "g' = g1"
          by (auto simp: add_message_to_assigned_team_def split: sum.splits bool.splits)
        with f assms show ?thesis by auto
      qed
    qed
  qed
  with a r show ?thesis by simp
qed

theorem channel_gate_witness:
  "add_message_to_team ((left_message ''u'')\<lparr>channel := ''#x''\<rparr>) 0 example_global_data
     = (Inr False, example_global_data)
   \<and> message_queue (team_at (snd (add_message_to_assigned_team
          ((left_message ''u'')\<lparr>channel := ''#x''\<rparr>) example_global_data)) 0) = []"
proof -
  have c: "channel ((left_message ''u'')\<lparr>channel := ''#x''\<rparr>)
             \<notin> channels (team_at example_global_data 0)"
    by (simp add: team_at_def example_teams example_team_fields)
  have q: "message_queue (team_at example_global_data 0) = []"
    by (simp add: team_at_def example_teams example_team_fields)
  from channel_gate [OF c] q show ?thesis by simp
qed

lemma update_team_first:
  "all_teams g = a # rest \<Longrightarrow> update_team g 0 f = g\<lparr>all_teams := f a # rest\<rparr>"
  by (simp add: update_team_def)

lemma team_at_first: "all_teams g = a # rest \<Longrightarrow> team_at g 0 = a"
  by (simp add: team_at_def)

lemma new_userlist_fields:
  "cache_users (new_userlist c) = c" "known_users (new_userlist c) = {}"
  "included_users (new_userlist c) = {}" "fixed_users (new_userlist c) = {}"
  "special_groups (new_userlist c) = (\<lambda>g. {})"
  by (simp_all add: new_userlist_def)

lemma unseen_message_in_list:
  "message_in_list (new_userlist True) (left_message ''u'') = (Inr False, seen_userlist)"
  by (simp add: unknown_user_not_in_list new_userlist_fields left_message_fields seen_userlist_def)

lemma first_in_blacklist:
  "in_blacklist 0 (left_message ''u'') example_global_data
   = (Inr False,
      example_global_data\<lparr>all_teams :=
        [(example_team ''A'')\<lparr>user_blacklist := seen_userlist\<rparr>, example_team ''B'']\<rparr>)"
  by (simp add: in_blacklist_def team_at_first [OF example_teams(1)]
      update_team_first [OF example_teams(1)] example_team_fields unseen_message_in_list)


lemma first_blocked:
  "blocked_from_team 0 (left_message ''u'') example_global_data
   = (Inr False,
      example_global_data\<lparr>all_teams :=
        [(example_team ''A'')\<lparr>user_blacklist := seen_userlist\<rparr>, example_team ''B'']\<rparr>)"
proof -
  let ?g1 = "example_global_data\<lparr>all_teams :=
        [(example_team ''A'')\<lparr>user_blacklist := seen_userlist\<rparr>, example_team ''B'']\<rparr>"
  have t: "team_at ?g1 0 = (example_team ''A'')\<lparr>user_blacklist := seen_userlist\<rparr>"
    by (simp add: team_at_def)
  have r: "get_team ?g1 (user (left_message ''u'')) = None"
    by (simp add: get_team_def example_teams)
  have b: "Team_blocked_from_team 0 (left_message ''u'') example_global_data = (Inr False, ?g1)"
    by (simp add: Team_blocked_from_team_def first_in_blacklist r)
  show ?thesis
    by (simp add: blocked_from_team_def b t example_team_fields is_prediction_team_def)
qed

lemma first_belongs:
  "belongs_to_team 0 (left_message ''u'')
     (example_global_data\<lparr>all_teams :=
        [(example_team ''A'')\<lparr>user_blacklist := seen_userlist\<rparr>, example_team ''B'']\<rparr>)
   = (Inr True,
      example_global_data\<lparr>all_teams :=
        [(example_team ''A'')\<lparr>user_whitelist := seen_userlist, user_blacklist := seen_userlist\<rparr>,
         example_team ''B'']\<rparr>)"
proof -
  let ?g1 = "example_global_data\<lparr>all_teams :=
        [(example_team ''A'')\<lparr>user_blacklist := seen_userlist\<rparr>, example_team ''B'']\<rparr>"
  let ?g2 = "example_global_data\<lparr>all_teams :=
        [(example_team ''A'')\<lparr>user_whitelist := seen_userlist, user_blacklist := seen_userlist\<rparr>,
         example_team ''B'']\<rparr>"
  have a: "all_teams ?g1 = (example_team ''A'')\<lparr>user_blacklist := seen_userlist\<rparr> # [example_team ''B'']"
    by simp
  have w: "in_whitelist 0 (left_message ''u'') ?g1 = (Inr False, ?g2)"
    by (simp add: in_whitelist_def team_at_first [OF a] update_team_first [OF a]
        example_team_fields unseen_message_in_list)
  have m: "user (left_message ''u'') \<notin> members (team_at ?g1 0)"
    by (simp add: team_at_first [OF a] example_team_fields)
  have tb: "Team_belongs_to_team 0 (left_message ''u'') ?g1 = (Inr MaybeFalse, ?g2)"
    by (simp add: Team_belongs_to_team_def m w)
  have v: "variant (team_at ?g2 0) = Default_Team"
    by (simp add: team_at_def example_team_fields)
  have pb: "private_belongs_to_team 0 (left_message ''u'') ?g1 = (Inr MaybeTrue, ?g2)"
    by (simp add: private_belongs_to_team_def tb v inherits_belongs_def is_certain_def
        MAYBE_bits_def FALSE_bits_def own_vote_def)
  show ?thesis
    by (simp add: belongs_to_team_def pb quad_bool_def TRUE_bits_def MAYBE_bits_def)
qed


lemma first_add_message:
  "add_message 0 (left_message ''u'')
     (example_global_data\<lparr>all_teams :=
        [(example_team ''A'')\<lparr>user_whitelist := seen_userlist, user_blacklist := seen_userlist\<rparr>,
         example_team ''B'']\<rparr>)
   = joined_global_data"
proof -
  let ?a2 = "(example_team ''A'')\<lparr>user_whitelist := seen_userlist, user_blacklist := seen_userlist\<rparr>"
  let ?g2 = "example_global_data\<lparr>all_teams := [?a2, example_team ''B'']\<rparr>"
  have a: "all_teams ?g2 = ?a2 # [example_team ''B'']" by simp
  have t: "team_at ?g2 0 = ?a2" by (rule team_at_first [OF a])
  let ?g3 = "example_global_data\<lparr>all_teams :=
      [?a2\<lparr>message_queue := [left_message ''u'']\<rparr>, example_team ''B'']\<rparr>"
  have u1: "update_team ?g2 0
      (\<lambda>t. t\<lparr>message_queue := deque_append (queue_length t) (message_queue t) (left_message ''u'')\<rparr>)
      = ?g3"
    by (simp add: update_team_first [OF a] example_team_fields deque_append_def)
  have a3: "all_teams ?g3 = ?a2\<lparr>message_queue := [left_message ''u'']\<rparr> # [example_team ''B'']"
    by simp
  have u2: "Users_add ''u'' 0
      (update_team ?g3 0 (\<lambda>t. t\<lparr>members := insert ''u'' (members t)\<rparr>))
      = joined_global_data"
    unfolding update_team_first [OF a3]
    by (simp add: example_team_fields Users_add_def joined_global_data_def
        example_global_data_def)
  show ?thesis
    by (simp add: add_message_def t example_team_fields u1 left_message_fields u2)
qed

lemma first_attempt:
  "add_message_to_team (left_message ''u'') 0 example_global_data
   = (Inr True, joined_global_data)"
  by (simp add: add_message_to_team_def team_at_first [OF example_teams(1)]
      example_team_fields left_message_fields left_is_command first_blocked first_belongs
      first_add_message)

lemma left_is_action: "message_is_action example_global_data (left_message u)"
  by (simp add: message_is_action_def example_teams left_message_fields startswith_def)

lemma first_delivery:
  "add_message_to_assigned_team (left_message ''u'') example_global_data
   = (Admitted 0, joined_global_data)"
proof -
  have n: "get_team example_global_data (user (left_message ''u'')) = None"
    by (simp add: get_team_def example_teams)
  have l: "[0..<length (all_teams example_global_data)] = 0 # [Suc 0]"
    by (simp add: example_teams upt_rec)
  have g: "state_accept_input example_global_data
           \<and> message_is_action example_global_data (left_message ''u'')"
    by (simp add: example_teams left_is_action)
  show ?thesis
    unfolding router_no_registry [OF g n] l by (simp add: first_attempt)
qed

lemma blacklisted_teams:
  "all_teams blacklisted_member_data =
     (example_team ''A'')
       \<lparr>user_blacklist :=
          \<lparr>cache_users = True, known_users = {''u''}, included_users = {''u''},
           fixed_users = {''u''}, special_groups = (\<lambda>g. {})\<rparr>,
        members := {''u''}\<rparr> # []"
  "all_users_dict blacklisted_member_data = [''u'' \<mapsto> 0]"
  "action_prefixes blacklisted_member_data = {''+''}"
  "state_accept_input blacklisted_member_data"
  by (simp_all add: blacklisted_member_data_def)

lemma blacklisted_in_blacklist:
  assumes "all_teams g =
     (example_team ''A'')
       \<lparr>user_blacklist :=
          \<lparr>cache_users = True, known_users = {''u''}, included_users = {''u''},
           fixed_users = {''u''}, special_groups = (\<lambda>g. {})\<rparr>,
        members := M\<rparr> # []"
  shows "in_blacklist 0 (left_message ''u'') g = (Inr True, g)"
proof -
  have "update_team g 0 (\<lambda>t. t\<lparr>user_blacklist := 
          \<lparr>cache_users = True, known_users = {''u''}, included_users = {''u''},
           fixed_users = {''u''}, special_groups = (\<lambda>g. {})\<rparr>\<rparr>) = g"
    unfolding update_team_first [OF assms] using assms by simp
  then show ?thesis
    by (simp add: in_blacklist_def team_at_first [OF assms] known_user_cached
        left_message_fields)
qed


lemma blacklisted_attempt:
  assumes "all_teams g =
     (example_team ''A'')
       \<lparr>user_blacklist :=
          \<lparr>cache_users = True, known_users = {''u''}, included_users = {''u''},
           fixed_users = {''u''}, special_groups = (\<lambda>g. {})\<rparr>,
        members := M\<rparr> # []"
  shows "add_message_to_team (left_message ''u'') 0 g
         = (Inr False, kick_out 0 (left_message ''u'') g)"
proof -
  have b: "Team_blocked_from_team 0 (left_message ''u'') g
           = (Inr True, kick_out 0 (left_message ''u'') g)"
    by (simp add: Team_blocked_from_team_def blacklisted_in_blacklist [OF assms])
  have "blocked_from_team 0 (left_message ''u'') g
           = (Inr True, kick_out 0 (left_message ''u'') g)"
    by (simp add: blocked_from_team_def b)
  then show ?thesis
    by (simp add: add_message_to_team_def team_at_first [OF assms] example_team_fields
        left_message_fields left_is_command)
qed

lemma blacklisted_kick_out:
  "kick_out 0 (left_message ''u'') blacklisted_member_data
   = blacklisted_member_data
       \<lparr>all_teams :=
          [(example_team ''A'')
             \<lparr>user_blacklist :=
                \<lparr>cache_users = True, known_users = {''u''}, included_users = {''u''},
                 fixed_users = {''u''}, special_groups = (\<lambda>g. {})\<rparr>,
              members := {}\<rparr>],
        all_users_dict := Map.empty\<rparr>"
  unfolding kick_out_def team_at_first [OF blacklisted_teams(1)]
    update_team_first [OF blacklisted_teams(1)]
  by (simp add: left_message_fields Users_discard_def blacklisted_teams)

lemma router_sound:
  assumes "add_message_to_assigned_team msg g = (d, g')"
  shows "(\<not> (state_accept_input g \<and> message_is_action g msg) \<longrightarrow> d = Dropped \<and> g' = g)
     \<and> (d = Dropped \<longrightarrow>
           length (all_teams g') = length (all_teams g)
         \<and> all_users_dict g' \<subseteq>\<^sub>m all_users_dict g
         \<and> (\<forall>k. team_at g' k
                  = (team_at g k)\<lparr>members := members (team_at g' k),
                                   user_whitelist := user_whitelist (team_at g' k),
                                   user_blacklist := user_blacklist (team_at g' k)\<rparr>
                \<and> members (team_at g' k) \<subseteq> members (team_at g k)))
     \<and> (\<forall>i. d = Admitted i \<longrightarrow>
           (\<forall>k. k \<noteq> i \<longrightarrow> message_queue (team_at g' k) = message_queue (team_at g k))
         \<and> ((get_team g (user msg) = Some i \<and> add_message_to_team msg i g = (Inr True, g'))
            \<or> (\<exists>g1 g2.
                  (get_team g (user msg) = None \<and> g1 = g
                   \<or> (\<exists>j. get_team g (user msg) = Some j
                          \<and> add_message_to_team msg j g = (Inr False, g1)))
                \<and> scan_teams msg [0..<i] g1 = (Dropped, g2)
                \<and> add_message_to_team msg i g2 = (Inr True, g'))))"
proof (intro conjI impI allI)
  assume "\<not> (state_accept_input g \<and> message_is_action g msg)"
  from router_closed [OF this] assms show "d = Dropped" "g' = g" by simp_all
next
  assume "d = Dropped"
  with assms have e: "evicts g g'" by (auto intro: router_dropped)
  from evictsD [OF e]
  show "length (all_teams g') = length (all_teams g)"
    "all_users_dict g' \<subseteq>\<^sub>m all_users_dict g" by blast+
  fix k
  from evictsD [OF e]
  show "team_at g' k
          = (team_at g k)\<lparr>members := members (team_at g' k),
                           user_whitelist := user_whitelist (team_at g' k),
                           user_blacklist := user_blacklist (team_at g' k)\<rparr>"
    "members (team_at g' k) \<subseteq> members (team_at g k)" by blast+
next
  fix i k
  assume "d = Admitted i" "k \<noteq> i"
  with assms router_admitted [of msg g i g']
  show "message_queue (team_at g' k) = message_queue (team_at g k)" by blast
next
  fix i
  assume "d = Admitted i"
  with assms router_admitted [of msg g i g']
  show "(get_team g (user msg) = Some i \<and> add_message_to_team msg i g = (Inr True, g'))
          \<or> (\<exists>g1 g2.
                (get_team g (user msg) = None \<and> g1 = g
                 \<or> (\<exists>j. get_team g (user msg) = Some j
                        \<and> add_message_to_team msg j g = (Inr False, g1)))
              \<and> scan_teams msg [0..<i] g1 = (Dropped, g2)
              \<and> add_message_to_team msg i g2 = (Inr True, g'))" by blast
qed

lemma scan_append:
  "scan_teams msg (pre @ rest) g =
     (case scan_teams msg pre g of
        (Dropped, g2) \<Rightarrow> scan_teams msg rest g2
      | (Admitted i, g2) \<Rightarrow> (Admitted i, g2)
      | (Raised e, g2) \<Rightarrow> (Raised e, g2))"
proof (induction pre arbitrary: g)
  case Nil
  show ?case by simp
next
  case (Cons j pre)
  obtain r g1 where a: "add_message_to_team msg j g = (r, g1)"
    by (cases "add_message_to_team msg j g")
  show ?case
  proof (cases r)
    case (Inl e)
    with a show ?thesis by simp
  next
    case (Inr b)
    with a Cons.IH [of g1] show ?thesis by (cases b) simp_all
  qed
qed

lemma upt_split_at:
  assumes "k < n"
  shows "[0..<n] = [0..<k] @ k # [Suc k..<n]"
proof -
  have "[0..<k + (n - k)] = [0..<k] @ [k..<k + (n - k)]"
    by (rule upt_add_eq_append) simp
  with assms have "[0..<n] = [0..<k] @ [k..<n]" by simp
  with assms show ?thesis by (simp add: upt_conv_Cons)
qed

lemma scan_first_accepting:
  assumes "k < n" and "scan_teams msg [0..<k] g = (Dropped, g2)"
      and "add_message_to_team msg k g2 = (Inr True, g3)"
  shows "scan_teams msg [0..<n] g = (Admitted k, g3)"
  unfolding upt_split_at [OF assms(1)] scan_append using assms(2,3) by simp

lemma scan_dropped_each:
  assumes "scan_teams msg [0..<n] g = (Dropped, g')" and "k < n"
  shows "\<exists>g2 g3. scan_teams msg [0..<k] g = (Dropped, g2)
            \<and> add_message_to_team msg k g2 = (Inr False, g3)"
proof -
  obtain d2 g2 where p: "scan_teams msg [0..<k] g = (d2, g2)"
    by (cases "scan_teams msg [0..<k] g")
  from assms(1) have s: "scan_teams msg ([0..<k] @ k # [Suc k..<n]) g = (Dropped, g')"
    using upt_split_at [OF assms(2)] by simp
  have d2: "d2 = Dropped"
    using s p unfolding scan_append by (cases d2) simp_all
  with s p have r: "scan_teams msg (k # [Suc k..<n]) g2 = (Dropped, g')"
    unfolding scan_append by simp
  obtain r3 g3 where a: "add_message_to_team msg k g2 = (r3, g3)"
    by (cases "add_message_to_team msg k g2")
  from r scan_step [OF a, of "[Suc k..<n]"] have "r3 = Inr False"
    by (cases r3) (auto split: if_splits)
  with a p d2 show ?thesis by blast
qed


lemma router_fast_accept:
  assumes "state_accept_input g \<and> message_is_action g msg"
      and "get_team g (user msg) = Some i"
      and "add_message_to_team msg i g = (Inr True, g1)"
  shows "add_message_to_assigned_team msg g = (Admitted i, g1)"
  unfolding router_registry [OF assms] by simp

lemma router_scan_accept:
  assumes "state_accept_input g \<and> message_is_action g msg"
      and "get_team g (user msg) = None \<and> g1 = g
           \<or> (\<exists>j. get_team g (user msg) = Some j
                  \<and> add_message_to_team msg j g = (Inr False, g1))"
      and "k < length (all_teams g)"
      and "scan_teams msg [0..<k] g1 = (Dropped, g2)"
      and "add_message_to_team msg k g2 = (Inr True, g3)"
  shows "add_message_to_assigned_team msg g = (Admitted k, g3)"
  using assms(2)
proof
  assume n: "get_team g (user msg) = None \<and> g1 = g"
  with assms(4) have "scan_teams msg [0..<k] g = (Dropped, g2)" by simp
  from scan_first_accepting [OF assms(3) this assms(5)] n
  show ?thesis by (simp add: router_no_registry [OF assms(1)])
next
  assume "\<exists>j. get_team g (user msg) = Some j
                  \<and> add_message_to_team msg j g = (Inr False, g1)"
  then obtain j where j: "get_team g (user msg) = Some j"
    and a: "add_message_to_team msg j g = (Inr False, g1)" by blast
  from attempt_frame [OF a] have n: "length (all_teams g1) = length (all_teams g)" by simp
  with assms(3) have "k < length (all_teams g1)" by simp
  from scan_first_accepting [OF this assms(4,5)]
  show ?thesis by (simp add: router_registry [OF assms(1) j a])
qed

lemma router_gate_dropped:
  assumes "state_accept_input g \<and> message_is_action g msg"
      and "add_message_to_assigned_team msg g = (Dropped, g')"
  shows "\<exists>g1. (get_team g (user msg) = None \<and> g1 = g
               \<or> (\<exists>j. get_team g (user msg) = Some j
                      \<and> add_message_to_team msg j g = (Inr False, g1)))
            \<and> scan_teams msg [0..<length (all_teams g)] g1 = (Dropped, g')
            \<and> (\<forall>k<length (all_teams g).
                  \<exists>g2 g3. scan_teams msg [0..<k] g1 = (Dropped, g2)
                        \<and> add_message_to_team msg k g2 = (Inr False, g3))"
proof (cases "get_team g (user msg)")
  case None
  from router_no_registry [OF assms(1) None] assms(2)
  have s: "scan_teams msg [0..<length (all_teams g)] g = (Dropped, g')" by simp
  have "\<forall>k<length (all_teams g).
          \<exists>g2 g3. scan_teams msg [0..<k] g = (Dropped, g2)
                \<and> add_message_to_team msg k g2 = (Inr False, g3)"
    using scan_dropped_each [OF s] by blast
  with None s show ?thesis by blast
next
  case (Some j)
  obtain r1 g1 where a1: "add_message_to_team msg j g = (r1, g1)"
    by (cases "add_message_to_team msg j g")
  note r = router_registry [OF assms(1) Some a1]
  from attempt_frame [OF a1] have n: "length (all_teams g1) = length (all_teams g)" by simp
  have f: "r1 = Inr False"
    using r assms(2) by (cases r1) (auto split: if_splits)
  with r assms(2) n have s: "scan_teams msg [0..<length (all_teams g)] g1 = (Dropped, g')"
    by simp
  have "\<forall>k<length (all_teams g).
          \<exists>g2 g3. scan_teams msg [0..<k] g1 = (Dropped, g2)
                \<and> add_message_to_team msg k g2 = (Inr False, g3)"
    using scan_dropped_each [OF s] by blast
  moreover from Some a1 f have "\<exists>j. get_team g (user msg) = Some j
                      \<and> add_message_to_team msg j g = (Inr False, g1)" by simp
  ultimately show ?thesis using s by blast
qed


lemma second_teams:
  "all_teams second_team_member_data
     = [example_team ''A'', (example_team ''B'')\<lparr>members := {''u''}\<rparr>]"
  "all_users_dict second_team_member_data = [''u'' \<mapsto> 1]"
  "action_prefixes second_team_member_data = {''+''}"
  "state_accept_input second_team_member_data"
  by (simp_all add: second_team_member_data_def)

lemma update_team_second:
  "all_teams g = [a, b] \<Longrightarrow> update_team g (Suc 0) f = g\<lparr>all_teams := [a, f b]\<rparr>"
  by (simp add: update_team_def)

lemma team_at_second: "all_teams g = [a, b] \<Longrightarrow> team_at g (Suc 0) = b"
  by (simp add: team_at_def)

lemma second_attempt:
  "add_message_to_team (left_message ''u'') 1 second_team_member_data
   = (Inr True,
      second_team_member_data\<lparr>all_teams :=
        [example_team ''A'',
         (example_team ''B'')\<lparr>user_blacklist := seen_userlist, members := {''u''},
                                message_queue := [left_message ''u'']\<rparr>]\<rparr>)"
proof -
  let ?g = second_team_member_data
  let ?b = "(example_team ''B'')\<lparr>members := {''u''}\<rparr>"
  let ?g1 = "?g\<lparr>all_teams := [example_team ''A'', ?b\<lparr>user_blacklist := seen_userlist\<rparr>]\<rparr>"
  note a = second_teams(1)
  have a1: "all_teams ?g1 = [example_team ''A'', ?b\<lparr>user_blacklist := seen_userlist\<rparr>]"
    by simp
  have bl: "in_blacklist (Suc 0) (left_message ''u'') ?g = (Inr False, ?g1)"
    by (simp add: in_blacklist_def team_at_second [OF a] update_team_second [OF a]
        example_team_fields unseen_message_in_list)
  have r: "get_team ?g1 (user (left_message ''u'')) = Some (Suc 0)"
    by (simp add: get_team_def second_teams left_message_fields)
  have tb: "Team_blocked_from_team (Suc 0) (left_message ''u'') ?g = (Inr False, ?g1)"
    by (simp add: Team_blocked_from_team_def bl r)
  have v: "variant (team_at ?g1 (Suc 0)) = Default_Team"
    by (simp add: team_at_second [OF a1] example_team_fields)
  have b: "blocked_from_team (Suc 0) (left_message ''u'') ?g = (Inr False, ?g1)"
    by (simp add: blocked_from_team_def tb v is_prediction_team_def)
  have m: "user (left_message ''u'') \<in> members (team_at ?g1 (Suc 0))"
    by (simp add: team_at_second [OF a1] left_message_fields)
  have tm: "Team_belongs_to_team (Suc 0) (left_message ''u'') ?g1 = (Inr AbsolutelyTrue, ?g1)"
    by (simp add: Team_belongs_to_team_def m)
  have pm: "private_belongs_to_team (Suc 0) (left_message ''u'') ?g1 = (Inr AbsolutelyTrue, ?g1)"
    by (simp add: private_belongs_to_team_def tm v inherits_belongs_def is_certain_def
        MAYBE_bits_def TRUE_bits_def)
  have bm: "belongs_to_team (Suc 0) (left_message ''u'') ?g1 = (Inr True, ?g1)"
    by (simp add: belongs_to_team_def pm quad_bool_def TRUE_bits_def)
  have u1: "update_team ?g1 (Suc 0)
      (\<lambda>t. t\<lparr>message_queue := deque_append (queue_length t) (message_queue t) (left_message ''u'')\<rparr>)
      = ?g\<lparr>all_teams :=
        [example_team ''A'',
         (example_team ''B'')\<lparr>user_blacklist := seen_userlist, members := {''u''},
                                message_queue := [left_message ''u'']\<rparr>]\<rparr>"
    unfolding update_team_second [OF a1]
    by (simp add: example_team_fields deque_append_def)
  have am: "add_message (Suc 0) (left_message ''u'') ?g1
      = ?g\<lparr>all_teams :=
        [example_team ''A'',
         (example_team ''B'')\<lparr>user_blacklist := seen_userlist, members := {''u''},
                                message_queue := [left_message ''u'']\<rparr>]\<rparr>"
    by (simp add: add_message_def team_at_second [OF a1] example_team_fields u1
        left_message_fields)
  have "add_message_to_team (left_message ''u'') (Suc 0) ?g
   = (Inr True,
      ?g\<lparr>all_teams :=
        [example_team ''A'',
         (example_team ''B'')\<lparr>user_blacklist := seen_userlist, members := {''u''},
                                message_queue := [left_message ''u'']\<rparr>]\<rparr>)"
    by (simp add: add_message_to_team_def team_at_second [OF a] example_team_fields
        left_message_fields left_is_command b bm am)
  then show ?thesis by simp
qed

text \<open>
  C5, as amended. The router does nothing unless the accept-input toggle is on and the
  text starts with a registered action prefix. With the gate open: when the team that the
  registry records for the user accepts, the message is admitted there; when there is no
  such team or it refuses, the message is admitted to the first team in registration
  order that accepts, every team before it having refused; and the call ends without a
  taker only when the recorded team (if any) and then every configured team in turn has
  refused. When a team has taken the message, no other team's message queue has changed.
  When the call ends without a taker, no queue has changed and nobody has become a
  member, but the block checks made on the way may have removed users from members sets
  and from the registry, and the lists' caches may have been filled.
\<close>

theorem router_dispatch:
  assumes "add_message_to_assigned_team msg g = (d, g')"
  shows "((\<not> (state_accept_input g \<and> message_is_action g msg) \<longrightarrow> d = Dropped \<and> g' = g)
     \<and> (d = Dropped \<longrightarrow>
           length (all_teams g') = length (all_teams g)
         \<and> all_users_dict g' \<subseteq>\<^sub>m all_users_dict g
         \<and> (\<forall>k. team_at g' k
                  = (team_at g k)\<lparr>members := members (team_at g' k),
                                   user_whitelist := user_whitelist (team_at g' k),
                                   user_blacklist := user_blacklist (team_at g' k)\<rparr>
                \<and> members (team_at g' k) \<subseteq> members (team_at g k)))
     \<and> (\<forall>i. d = Admitted i \<longrightarrow>
           (\<forall>k. k \<noteq> i \<longrightarrow> message_queue (team_at g' k) = message_queue (team_at g k))
         \<and> ((get_team g (user msg) = Some i \<and> add_message_to_team msg i g = (Inr True, g'))
            \<or> (\<exists>g1 g2.
                  (get_team g (user msg) = None \<and> g1 = g
                   \<or> (\<exists>j. get_team g (user msg) = Some j
                          \<and> add_message_to_team msg j g = (Inr False, g1)))
                \<and> scan_teams msg [0..<i] g1 = (Dropped, g2)
                \<and> add_message_to_team msg i g2 = (Inr True, g')))))
     \<and> (state_accept_input g \<and> message_is_action g msg \<and> d = Dropped \<longrightarrow>
           (\<exists>g1. (get_team g (user msg) = None \<and> g1 = g
                   \<or> (\<exists>j. get_team g (user msg) = Some j
                          \<and> add_message_to_team msg j g = (Inr False, g1)))
                \<and> (\<forall>k<length (all_teams g).
                      \<exists>g2 g3. scan_teams msg [0..<k] g1 = (Dropped, g2)
                            \<and> add_message_to_team msg k g2 = (Inr False, g3))))
     \<and> (\<forall>i g1. state_accept_input g \<and> message_is_action g msg
            \<and> get_team g (user msg) = Some i
            \<and> add_message_to_team msg i g = (Inr True, g1)
           \<longrightarrow> d = Admitted i \<and> g' = g1)
     \<and> (\<forall>k g1 g2 g3. state_accept_input g \<and> message_is_action g msg
            \<and> (get_team g (user msg) = None \<and> g1 = g
                \<or> (\<exists>j. get_team g (user msg) = Some j
                       \<and> add_message_to_team msg j g = (Inr False, g1)))
            \<and> k < length (all_teams g)
            \<and> scan_teams msg [0..<k] g1 = (Dropped, g2)
            \<and> add_message_to_team msg k g2 = (Inr True, g3)
           \<longrightarrow> d = Admitted k \<and> g' = g3)"
proof -
  have c1: "(\<not> (state_accept_input g \<and> message_is_action g msg) \<longrightarrow> d = Dropped \<and> g' = g)
     \<and> (d = Dropped \<longrightarrow>
           length (all_teams g') = length (all_teams g)
         \<and> all_users_dict g' \<subseteq>\<^sub>m all_users_dict g
         \<and> (\<forall>k. team_at g' k
                  = (team_at g k)\<lparr>members := members (team_at g' k),
                                   user_whitelist := user_whitelist (team_at g' k),
                                   user_blacklist := user_blacklist (team_at g' k)\<rparr>
                \<and> members (team_at g' k) \<subseteq> members (team_at g k)))
     \<and> (\<forall>i. d = Admitted i \<longrightarrow>
           (\<forall>k. k \<noteq> i \<longrightarrow> message_queue (team_at g' k) = message_queue (team_at g k))
         \<and> ((get_team g (user msg) = Some i \<and> add_message_to_team msg i g = (Inr True, g'))
            \<or> (\<exists>g1 g2.
                  (get_team g (user msg) = None \<and> g1 = g
                   \<or> (\<exists>j. get_team g (user msg) = Some j
                          \<and> add_message_to_team msg j g = (Inr False, g1)))
                \<and> scan_teams msg [0..<i] g1 = (Dropped, g2)
                \<and> add_message_to_team msg i g2 = (Inr True, g'))))"
    by (rule router_sound [OF assms])
  have c2: "state_accept_input g \<and> message_is_action g msg \<and> d = Dropped \<longrightarrow>
           (\<exists>g1. (get_team g (user msg) = None \<and> g1 = g
                   \<or> (\<exists>j. get_team g (user msg) = Some j
                          \<and> add_message_to_team msg j g = (Inr False, g1)))
                \<and> (\<forall>k<length (all_teams g).
                      \<exists>g2 g3. scan_teams msg [0..<k] g1 = (Dropped, g2)
                            \<and> add_message_to_team msg k g2 = (Inr False, g3)))"
  proof
    assume h: "state_accept_input g \<and> message_is_action g msg \<and> d = Dropped"
    then have gate: "state_accept_input g \<and> message_is_action g msg" by simp
    from h assms have r: "add_message_to_assigned_team msg g = (Dropped, g')" by simp
    from router_gate_dropped [OF gate r]
    show "\<exists>g1. (get_team g (user msg) = None \<and> g1 = g
                   \<or> (\<exists>j. get_team g (user msg) = Some j
                          \<and> add_message_to_team msg j g = (Inr False, g1)))
                \<and> (\<forall>k<length (all_teams g).
                      \<exists>g2 g3. scan_teams msg [0..<k] g1 = (Dropped, g2)
                            \<and> add_message_to_team msg k g2 = (Inr False, g3))"
      by blast
  qed
  have c3: "\<forall>i g1. state_accept_input g \<and> message_is_action g msg
            \<and> get_team g (user msg) = Some i
            \<and> add_message_to_team msg i g = (Inr True, g1)
           \<longrightarrow> d = Admitted i \<and> g' = g1"
  proof (intro allI impI)
    fix i g1
    assume h: "state_accept_input g \<and> message_is_action g msg
            \<and> get_team g (user msg) = Some i
            \<and> add_message_to_team msg i g = (Inr True, g1)"
    then have "add_message_to_assigned_team msg g = (Admitted i, g1)"
      by (intro router_fast_accept) simp_all
    with assms show "d = Admitted i \<and> g' = g1" by simp
  qed
  have c4: "\<forall>k g1 g2 g3. state_accept_input g \<and> message_is_action g msg
            \<and> (get_team g (user msg) = None \<and> g1 = g
                \<or> (\<exists>j. get_team g (user msg) = Some j
                       \<and> add_message_to_team msg j g = (Inr False, g1)))
            \<and> k < length (all_teams g)
            \<and> scan_teams msg [0..<k] g1 = (Dropped, g2)
            \<and> add_message_to_team msg k g2 = (Inr True, g3)
           \<longrightarrow> d = Admitted k \<and> g' = g3"
  proof (intro allI impI)
    fix k g1 g2 g3
    assume h: "state_accept_input g \<and> message_is_action g msg
            \<and> (get_team g (user msg) = None \<and> g1 = g
                \<or> (\<exists>j. get_team g (user msg) = Some j
                       \<and> add_message_to_team msg j g = (Inr False, g1)))
            \<and> k < length (all_teams g)
            \<and> scan_teams msg [0..<k] g1 = (Dropped, g2)
            \<and> add_message_to_team msg k g2 = (Inr True, g3)"
    then have gate: "state_accept_input g \<and> message_is_action g msg"
      and f: "get_team g (user msg) = None \<and> g1 = g
                \<or> (\<exists>j. get_team g (user msg) = Some j
                       \<and> add_message_to_team msg j g = (Inr False, g1))"
      and k: "k < length (all_teams g)"
      and s: "scan_teams msg [0..<k] g1 = (Dropped, g2)"
      and a: "add_message_to_team msg k g2 = (Inr True, g3)" by simp_all
    from router_scan_accept [OF gate f k s a] assms
    show "d = Admitted k \<and> g' = g3" by simp
  qed
  show ?thesis by (rule conjI [OF c1 conjI [OF c2 conjI [OF c3 c4]]])
qed

text \<open>
  The claim as written fails in its last part: the message of a blacklisted member is
  taken by no team, yet the call removes the user from the team's members and from the
  registry.
\<close>

theorem router_dispatch_counterexample:
  "fst (add_message_to_assigned_team (left_message ''u'') blacklisted_member_data) = Dropped
   \<and> members (team_at blacklisted_member_data 0) = {''u''}
   \<and> members (team_at (snd (add_message_to_assigned_team (left_message ''u'')
          blacklisted_member_data)) 0) = {}
   \<and> all_users_dict blacklisted_member_data ''u'' = Some 0
   \<and> all_users_dict (snd (add_message_to_assigned_team (left_message ''u'')
          blacklisted_member_data)) ''u'' = None"
proof -
  let ?g1 = "blacklisted_member_data
       \<lparr>all_teams :=
          [(example_team ''A'')
             \<lparr>user_blacklist :=
                \<lparr>cache_users = True, known_users = {''u''}, included_users = {''u''},
                 fixed_users = {''u''}, special_groups = (\<lambda>g. {})\<rparr>,
              members := {}\<rparr>],
        all_users_dict := Map.empty\<rparr>"
  have a1: "all_teams ?g1 = (example_team ''A'')
             \<lparr>user_blacklist :=
                \<lparr>cache_users = True, known_users = {''u''}, included_users = {''u''},
                 fixed_users = {''u''}, special_groups = (\<lambda>g. {})\<rparr>,
              members := {}\<rparr> # []" by simp
  have k1: "kick_out 0 (left_message ''u'') ?g1 = ?g1"
    by (simp add: kick_out_def team_at_first [OF a1] left_message_fields)
  have f: "add_message_to_team (left_message ''u'') 0 blacklisted_member_data = (Inr False, ?g1)"
    by (simp add: blacklisted_attempt [OF blacklisted_teams(1)] blacklisted_kick_out)
  have s: "add_message_to_team (left_message ''u'') 0 ?g1 = (Inr False, ?g1)"
    by (simp add: blacklisted_attempt [OF a1] k1)
  have gate: "state_accept_input blacklisted_member_data
           \<and> message_is_action blacklisted_member_data (left_message ''u'')"
    by (simp add: blacklisted_teams message_is_action_def left_message_fields startswith_def)
  have reg: "get_team blacklisted_member_data (user (left_message ''u'')) = Some 0"
    by (simp add: get_team_def blacklisted_teams left_message_fields)
  have l: "[0..<length (all_teams ?g1)] = [0]" by simp
  have r: "add_message_to_assigned_team (left_message ''u'') blacklisted_member_data
           = (Dropped, ?g1)"
    unfolding router_registry [OF gate reg f] by (simp add: s)
  show ?thesis
    unfolding r by (simp add: team_at_def blacklisted_teams)
qed

theorem router_dispatch_witness:
  "add_message_to_assigned_team (left_message ''u'') example_global_data
     = (Admitted 0, joined_global_data)
   \<and> message_queue (team_at joined_global_data 1)
     = message_queue (team_at example_global_data 1)
   \<and> message_queue (team_at joined_global_data 0) = [left_message ''u'']
   \<and> add_message_to_assigned_team (left_message ''u'') second_team_member_data
     = (Admitted 1,
        second_team_member_data\<lparr>all_teams :=
          [example_team ''A'',
           (example_team ''B'')\<lparr>user_blacklist := seen_userlist, members := {''u''},
                                  message_queue := [left_message ''u'']\<rparr>]\<rparr>)"
proof -
  obtain d g' where r: "add_message_to_assigned_team (left_message ''u'') example_global_data
      = (d, g')"
    by (cases "add_message_to_assigned_team (left_message ''u'') example_global_data")
  note t = router_dispatch [OF r]
  have gate: "state_accept_input example_global_data
           \<and> message_is_action example_global_data (left_message ''u'')"
    by (simp add: example_teams left_is_action)
  have n: "get_team example_global_data (user (left_message ''u'')) = None"
    by (simp add: get_team_def example_teams)
  have k: "0 < length (all_teams example_global_data)" by (simp add: example_teams)
  have s: "scan_teams (left_message ''u'') [0..<0] example_global_data
      = (Dropped, example_global_data)" by simp
  from t gate n k s first_attempt have dg: "d = Admitted 0 \<and> g' = joined_global_data"
    by blast
  from t dg have "\<forall>k. k \<noteq> 0 \<longrightarrow> message_queue (team_at joined_global_data k)
                          = message_queue (team_at example_global_data k)"
    by blast
  then have q1: "message_queue (team_at joined_global_data 1)
     = message_queue (team_at example_global_data 1)" by simp
  have q0: "message_queue (team_at joined_global_data 0) = [left_message ''u'']"
    by (simp add: team_at_def joined_global_data_def)
  obtain d2 g2 where r2: "add_message_to_assigned_team (left_message ''u'')
      second_team_member_data = (d2, g2)"
    by (cases "add_message_to_assigned_team (left_message ''u'') second_team_member_data")
  note t2 = router_dispatch [OF r2]
  have gate2: "state_accept_input second_team_member_data
           \<and> message_is_action second_team_member_data (left_message ''u'')"
    by (simp add: second_teams message_is_action_def left_message_fields startswith_def)
  have reg2: "get_team second_team_member_data (user (left_message ''u'')) = Some 1"
    by (simp add: get_team_def second_teams left_message_fields)
  from t2 gate2 reg2 second_attempt
  have "d2 = Admitted 1 \<and> g2 = second_team_member_data\<lparr>all_teams :=
          [example_team ''A'',
           (example_team ''B'')\<lparr>user_blacklist := seen_userlist, members := {''u''},
                                  message_queue := [left_message ''u'']\<rparr>]\<rparr>"
    by blast
  with r r2 dg q1 q0 show ?thesis by simp
qed

subsection \<open>The registry invariant\<close>

lemma agrees_lists:
  assumes "\<And>t. members (f t) = members t"
  shows "registry_agrees (update_team g i f) = registry_agrees g"
proof -
  have "members (team_at (update_team g i f) j) = members (team_at g j)" for j
    by (simp add: team_at_update_team assms)
  then show ?thesis by (simp add: registry_agrees_def)
qed

lemma agrees_add_member:
  assumes "registry_agrees g" and "i < length (all_teams g)" and "unclaimed g i u"
  shows "registry_agrees
           (Users_add u i (update_team g i (\<lambda>t. t\<lparr>members := insert u (members t)\<rparr>)))"
  unfolding registry_agrees_def
proof (intro allI)
  fix v j
  let ?g' = "Users_add u i (update_team g i (\<lambda>t. t\<lparr>members := insert u (members t)\<rparr>))"
  from assms(1) have inv: "(all_users_dict g v = Some j)
            = (j < length (all_teams g) \<and> v \<in> members (team_at g j))" for v j
    by (simp add: registry_agrees_def)
  show "(all_users_dict ?g' v = Some j)
            = (j < length (all_teams ?g') \<and> v \<in> members (team_at ?g' j))"
  proof (cases "v = u")
    case False
    then show ?thesis using inv [of v j] assms(2) by (auto simp: team_at_update_team)
  next
    case True
    show ?thesis
    proof (cases "j = i")
      case True
      with \<open>v = u\<close> assms(2) show ?thesis by (simp add: team_at_update_team)
    next
      case False
      have "\<not> (j < length (all_teams g) \<and> u \<in> members (team_at g j))"
        using inv [of u j] assms(3) False by (auto simp: unclaimed_def get_team_def)
      with False \<open>v = u\<close> show ?thesis by (auto simp: team_at_update_team)
    qed
  qed
qed

lemma agrees_remove_member:
  assumes "registry_agrees g" and "i < length (all_teams g)" and "u \<in> members (team_at g i)"
  shows "registry_agrees
           (Users_discard u (update_team g i (\<lambda>t. t\<lparr>members := members t - {u}\<rparr>)))"
  unfolding registry_agrees_def
proof (intro allI)
  fix v j
  let ?g' = "Users_discard u (update_team g i (\<lambda>t. t\<lparr>members := members t - {u}\<rparr>))"
  from assms(1) have inv: "(all_users_dict g v = Some j)
            = (j < length (all_teams g) \<and> v \<in> members (team_at g j))" for v j
    by (simp add: registry_agrees_def)
  from inv [of u i] assms(2,3) have ui: "all_users_dict g u = Some i" by simp
  show "(all_users_dict ?g' v = Some j)
            = (j < length (all_teams ?g') \<and> v \<in> members (team_at ?g' j))"
  proof (cases "v = u")
    case False
    then show ?thesis using inv [of v j] assms(2) by (auto simp: team_at_update_team)
  next
    case True
    have "\<not> (j < length (all_teams g) \<and> u \<in> members (team_at g j))" if "j \<noteq> i"
      using inv [of u j] ui that by auto
    with True show ?thesis by (auto simp: team_at_update_team)
  qed
qed


lemma lists_only_refl: "lists_only g g"
  by (simp add: lists_only_def)

lemma lists_only_fields:
  assumes "lists_only g g'"
  shows "members (team_at g' k) = members (team_at g k)"
    and "exclusive (team_at g' k) = exclusive (team_at g k)"
    and "variant (team_at g' k) = variant (team_at g k)"
    and "length (all_teams g') = length (all_teams g)"
    and "all_users_dict g' = all_users_dict g"
proof -
  from assms have e: "team_at g' k
               = (team_at g k)\<lparr>user_whitelist := user_whitelist (team_at g' k),
                                user_blacklist := user_blacklist (team_at g' k)\<rparr>"
    by (simp add: lists_only_def)
  have "members (team_at g' k)
      = members ((team_at g k)\<lparr>user_whitelist := user_whitelist (team_at g' k),
                                user_blacklist := user_blacklist (team_at g' k)\<rparr>)"
    using e by simp
  then show "members (team_at g' k) = members (team_at g k)" by simp
  have "exclusive (team_at g' k)
      = exclusive ((team_at g k)\<lparr>user_whitelist := user_whitelist (team_at g' k),
                                user_blacklist := user_blacklist (team_at g' k)\<rparr>)"
    using e by simp
  then show "exclusive (team_at g' k) = exclusive (team_at g k)" by simp
  have "variant (team_at g' k)
      = variant ((team_at g k)\<lparr>user_whitelist := user_whitelist (team_at g' k),
                                user_blacklist := user_blacklist (team_at g' k)\<rparr>)"
    using e by simp
  then show "variant (team_at g' k) = variant (team_at g k)" by simp
  from assms show "length (all_teams g') = length (all_teams g)"
    "all_users_dict g' = all_users_dict g" by (simp_all add: lists_only_def)
qed

lemma lists_only_trans:
  assumes "lists_only g g1" and "lists_only g1 g2"
  shows "lists_only g g2"
proof -
  have "team_at g2 k
          = (team_at g k)\<lparr>user_whitelist := user_whitelist (team_at g2 k),
                           user_blacklist := user_blacklist (team_at g2 k)\<rparr>" for k
  proof -
    from assms(1) have a: "team_at g1 k
          = (team_at g k)\<lparr>user_whitelist := user_whitelist (team_at g1 k),
                           user_blacklist := user_blacklist (team_at g1 k)\<rparr>"
      by (simp add: lists_only_def)
    from assms(2) have b: "team_at g2 k
          = (team_at g1 k)\<lparr>user_whitelist := user_whitelist (team_at g2 k),
                           user_blacklist := user_blacklist (team_at g2 k)\<rparr>"
      by (simp add: lists_only_def)
    show ?thesis by (subst b, subst a) simp
  qed
  then show ?thesis using assms by (simp add: lists_only_def)
qed

lemma lists_only_agrees: "lists_only g g' \<Longrightarrow> registry_agrees g' = registry_agrees g"
  by (simp add: registry_agrees_def lists_only_fields)

lemma lists_only_unclaimed: "lists_only g g' \<Longrightarrow> unclaimed g' i u = unclaimed g i u"
  by (simp add: unclaimed_def get_team_def lists_only_fields)

lemma in_blacklist_lists: "in_blacklist i msg g = (r, g') \<Longrightarrow> lists_only g g'"
  by (auto simp: in_blacklist_def lists_only_def team_at_update_team split: prod.splits)

lemma in_whitelist_lists: "in_whitelist i msg g = (r, g') \<Longrightarrow> lists_only g g'"
  by (auto simp: in_whitelist_def lists_only_def team_at_update_team split: prod.splits)


lemma kick_out_agrees:
  assumes "registry_agrees g" and "i < length (all_teams g)"
  shows "registry_agrees (kick_out i msg g)"
  using assms by (simp add: kick_out_def agrees_remove_member)

lemma kick_out_length: "length (all_teams (kick_out i msg g)) = length (all_teams g)"
  by (simp add: kick_out_def)

lemma Team_blocked_cases:
  assumes "Team_blocked_from_team i msg g = (r, g')"
  shows "\<exists>g1. lists_only g g1
          \<and> ((r = Inr True \<and> g' = kick_out i msg g1)
             \<or> (r = Inr False \<and> g' = g1 \<and> (exclusive (team_at g1 i) \<longrightarrow> unclaimed g1 i (user msg)))
             \<or> ((\<exists>e. r = Inl e) \<and> g' = g1))"
proof -
  obtain rb g1 where b: "in_blacklist i msg g = (rb, g1)" by (cases "in_blacklist i msg g")
  from in_blacklist_lists [OF b] have l: "lists_only g g1" .
  show ?thesis
  proof (cases rb)
    case (Inl e)
    with assms b l show ?thesis by (auto simp: Team_blocked_from_team_def)
  next
    case (Inr bl)
    show ?thesis
    proof (cases "bl \<or> (exclusive (team_at g1 i)
                \<and> (case get_team g1 (user msg) of None \<Rightarrow> False | Some other_team \<Rightarrow> other_team \<noteq> i))")
      case True
      with assms b Inr have "r = Inr True" "g' = kick_out i msg g1"
        by (simp_all add: Team_blocked_from_team_def)
      with l show ?thesis by blast
    next
      case False
      with assms b Inr have "r = Inr False" "g' = g1"
        by (simp_all add: Team_blocked_from_team_def)
      moreover from False have "exclusive (team_at g1 i) \<longrightarrow> unclaimed g1 i (user msg)"
        by (auto simp: unclaimed_def split: option.splits)
      ultimately show ?thesis using l by blast
    qed
  qed
qed

lemma blocked_cases:
  assumes "blocked_from_team i msg g = (r, g')"
  shows "\<exists>g1. lists_only g g1
          \<and> ((r = Inr True \<and> (g' = kick_out i msg g1 \<or> g' = g1))
             \<or> (r = Inr False \<and> g' = g1 \<and> (exclusive (team_at g1 i) \<longrightarrow> unclaimed g1 i (user msg)))
             \<or> ((\<exists>e. r = Inl e) \<and> g' = g1))"
proof -
  obtain rt gt where t: "Team_blocked_from_team i msg g = (rt, gt)"
    by (cases "Team_blocked_from_team i msg g")
  from Team_blocked_cases [OF t] obtain g0 where
    l0: "lists_only g g0" and
    c: "(rt = Inr True \<and> gt = kick_out i msg g0)
        \<or> (rt = Inr False \<and> gt = g0 \<and> (exclusive (team_at g0 i) \<longrightarrow> unclaimed g0 i (user msg)))
        \<or> ((\<exists>e. rt = Inl e) \<and> gt = g0)" by blast
  show ?thesis
  proof (cases "rt = Inr False")
    case False
    with c assms t have "(r = Inr True \<and> g' = kick_out i msg g0) \<or> ((\<exists>e. r = Inl e) \<and> g' = g0)"
      by (auto simp: blocked_from_team_def)
    with l0 show ?thesis by blast
  next
    case True
    with c have gt: "gt = g0" and u0: "exclusive (team_at g0 i) \<longrightarrow> unclaimed g0 i (user msg)"
      by simp_all
    note t' = t [unfolded True gt]
    show ?thesis
    proof (cases "variant (team_at g0 i) = Whitelist_Team")
      case wl: True
      show ?thesis
      proof (cases "user msg \<in> members (team_at g0 i)")
        case True
        with assms t' wl have "r = Inr False" "g' = g0" by (simp_all add: blocked_from_team_def)
        with l0 u0 show ?thesis by blast
      next
        case False
        obtain rw g2 where w: "in_whitelist i msg g0 = (rw, g2)" by (cases "in_whitelist i msg g0")
        from in_whitelist_lists [OF w] have l2: "lists_only g0 g2" .
        with l0 have l: "lists_only g g2" by (rule lists_only_trans)
        from u0 have u2: "exclusive (team_at g2 i) \<longrightarrow> unclaimed g2 i (user msg)"
          by (simp add: lists_only_fields [OF l2] lists_only_unclaimed [OF l2])
        from assms t' wl False w have "g' = g2"
          "(\<exists>e. r = Inl e) \<or> r = Inr True \<or> r = Inr False"
          by (auto simp: blocked_from_team_def split: sum.splits)
        with l u2 show ?thesis by blast
      qed
    next
      case nwl: False
      show ?thesis
      proof (cases "is_prediction_team (variant (team_at g0 i))")
        case False
        with assms t' nwl have "r = Inr False" "g' = g0" by (simp_all add: blocked_from_team_def)
        with l0 u0 show ?thesis by blast
      next
        case True
        with assms t' nwl have "(r = Inr True \<and> g' = kick_out i msg g0)
           \<or> (r = Inr False \<and> g' = g0) \<or> ((\<exists>e. r = Inl e) \<and> g' = g0)"
          by (auto simp: blocked_from_team_def split: sum.splits if_splits)
        with l0 u0 show ?thesis by blast
      qed
    qed
  qed
qed


lemma blocked_agrees:
  assumes "registry_agrees g" and "i < length (all_teams g)"
      and "blocked_from_team i msg g = (r, g')"
  shows "registry_agrees g' \<and> length (all_teams g') = length (all_teams g)"
proof -
  from blocked_cases [OF assms(3)] obtain g1 where
    l: "lists_only g g1" and c: "g' = kick_out i msg g1 \<or> g' = g1" by blast
  from l assms(1) have a1: "registry_agrees g1" by (simp add: lists_only_agrees)
  from l assms(2) have i1: "i < length (all_teams g1)" by (simp add: lists_only_fields)
  from c show ?thesis
  proof
    assume "g' = kick_out i msg g1"
    with kick_out_agrees [OF a1 i1] l show ?thesis
      by (simp add: kick_out_length lists_only_fields)
  next
    assume "g' = g1"
    with a1 l show ?thesis by (simp add: lists_only_fields)
  qed
qed

lemma belongs_lists: "belongs_to_team i msg g = (r, g') \<Longrightarrow> lists_only g g'"
proof -
  assume a: "belongs_to_team i msg g = (r, g')"
  obtain rt gt where t: "Team_belongs_to_team i msg g = (rt, gt)"
    by (cases "Team_belongs_to_team i msg g")
  have l: "lists_only g gt"
  proof (cases "user msg \<in> members (team_at g i)")
    case True
    with t show ?thesis by (simp add: Team_belongs_to_team_def lists_only_refl)
  next
    case False
    obtain rw gw where w: "in_whitelist i msg g = (rw, gw)" by (cases "in_whitelist i msg g")
    with t False have "gt = gw" by (auto simp: Team_belongs_to_team_def split: sum.splits)
    with in_whitelist_lists [OF w] show ?thesis by simp
  qed
  obtain rp gp where p: "private_belongs_to_team i msg g = (rp, gp)"
    by (cases "private_belongs_to_team i msg g")
  with t have "gp = gt"
    by (auto simp: private_belongs_to_team_def split: sum.splits if_splits)
  moreover from a p have "g' = gp" by (auto simp: belongs_to_team_def split: sum.splits)
  ultimately show ?thesis using l by simp
qed

lemma add_message_agrees:
  assumes "registry_agrees g" and "i < length (all_teams g)"
      and "exclusive (team_at g i) \<longrightarrow> unclaimed g i (user msg)"
  shows "registry_agrees (add_message i msg g)"
proof -
  let ?g1 = "update_team g i
      (\<lambda>t. t\<lparr>message_queue := deque_append (queue_length t) (message_queue t) msg\<rparr>)"
  have a1: "registry_agrees ?g1" using assms(1) by (simp add: agrees_lists)
  have i1: "i < length (all_teams ?g1)" using assms(2) by simp
  have u1: "unclaimed ?g1 i (user msg) = unclaimed g i (user msg)"
    by (simp add: unclaimed_def get_team_def)
  show ?thesis
    using assms a1 agrees_add_member [OF a1 i1, of "user msg"] u1
    by (simp add: add_message_def Let_def)
qed


lemma attempt_unfold:
  assumes "channel msg \<in> channels (team_at g i) \<and> message_is_command (actionset (team_at g i)) msg"
      and "blocked_from_team i msg g = (rb, g1)"
  shows "add_message_to_team msg i g =
     (case rb of Inl e \<Rightarrow> (Inl e, g1)
      | Inr b \<Rightarrow> if b then (Inr False, g1)
                 else (case belongs_to_team i msg g1 of
                         (Inl e, g2) \<Rightarrow> (Inl e, g2)
                       | (Inr False, g2) \<Rightarrow> (Inr False, g2)
                       | (Inr True, g2) \<Rightarrow> (Inr True, add_message i msg g2)))"
  using assms by (simp add: add_message_to_team_def split: sum.splits bool.splits)

lemma attempt_agrees:
  assumes "registry_agrees g" and "i < length (all_teams g)"
      and "add_message_to_team msg i g = (r, g')"
  shows "registry_agrees g' \<and> length (all_teams g') = length (all_teams g)"
proof (cases "channel msg \<in> channels (team_at g i) \<and> message_is_command (actionset (team_at g i)) msg")
  case False
  with assms(3) have "g' = g" by (auto simp: add_message_to_team_def)
  with assms(1) show ?thesis by simp
next
  case gate: True
  obtain rb g1 where b: "blocked_from_team i msg g = (rb, g1)"
    by (cases "blocked_from_team i msg g")
  note u = attempt_unfold [OF gate b]
  from blocked_agrees [OF assms(1,2) b]
  have a1: "registry_agrees g1" and n1: "length (all_teams g1) = length (all_teams g)" by simp_all
  show ?thesis
  proof (cases rb)
    case (Inl e)
    with u assms(3) have "g' = g1" by simp
    with a1 n1 show ?thesis by simp
  next
    case (Inr bl)
    show ?thesis
    proof (cases bl)
      case True
      with u assms(3) Inr have "g' = g1" by simp
      with a1 n1 show ?thesis by simp
    next
      case False
      with b Inr blocked_cases [of i msg g "Inr False" g1]
      have guard: "exclusive (team_at g1 i) \<longrightarrow> unclaimed g1 i (user msg)" by auto
      obtain rm g2 where m: "belongs_to_team i msg g1 = (rm, g2)"
        by (cases "belongs_to_team i msg g1")
      from belongs_lists [OF m] have l: "lists_only g1 g2" .
      from l a1 have a2: "registry_agrees g2" by (simp add: lists_only_agrees)
      from l n1 have n2: "length (all_teams g2) = length (all_teams g)"
        by (simp add: lists_only_fields)
      from guard have guard2: "exclusive (team_at g2 i) \<longrightarrow> unclaimed g2 i (user msg)"
        by (simp add: lists_only_fields [OF l] lists_only_unclaimed [OF l])
      from u assms(3) Inr False m
      have c: "g' = g2 \<or> g' = add_message i msg g2"
        by (auto split: sum.splits bool.splits)
      from c show ?thesis
      proof
        assume "g' = g2"
        with a2 n2 show ?thesis by simp
      next
        assume g': "g' = add_message i msg g2"
        from assms(2) n2 have "i < length (all_teams g2)" by simp
        from add_message_agrees [OF a2 this guard2] n2 show ?thesis
          unfolding g' by (simp add: add_message_length)
      qed
    qed
  qed
qed

lemma scan_agrees:
  assumes "registry_agrees g" and "\<forall>i \<in> set is. i < length (all_teams g)"
      and "scan_teams msg is g = (d, g')"
  shows "registry_agrees g'"
  using assms
proof (induction "is" arbitrary: g)
  case Nil
  then show ?case by simp
next
  case (Cons i rest)
  obtain r g1 where a: "add_message_to_team msg i g = (r, g1)"
    by (cases "add_message_to_team msg i g")
  from Cons.prems(2) have i: "i < length (all_teams g)" by simp
  from attempt_agrees [OF Cons.prems(1) i a]
  have a1: "registry_agrees g1" and n1: "length (all_teams g1) = length (all_teams g)" by simp_all
  note s = scan_step [OF a, of rest]
  show ?case
  proof (cases "r = Inr False")
    case True
    with s Cons.prems(3) have s': "scan_teams msg rest g1 = (d, g')" by simp
    from Cons.prems(2) n1 have b': "\<forall>i \<in> set rest. i < length (all_teams g1)" by simp
    from Cons.IH [OF a1 b' s'] show ?thesis .
  next
    case False
    with s Cons.prems(3) have "g' = g1" by (auto split: sum.splits bool.splits)
    with a1 show ?thesis by simp
  qed
qed

lemma router_agrees:
  assumes "registry_agrees g" and "add_message_to_assigned_team msg g = (d, g')"
  shows "registry_agrees g'"
proof (cases "state_accept_input g \<and> message_is_action g msg")
  case False
  from router_closed [OF this] assms show ?thesis by simp
next
  case gate: True
  show ?thesis
  proof (cases "get_team g (user msg)")
    case None
    from router_no_registry [OF gate None] assms(2)
    have "scan_teams msg [0..<length (all_teams g)] g = (d, g')" by simp
    with assms(1) show ?thesis by (intro scan_agrees [of g _ msg d g']) simp_all
  next
    case (Some j)
    with assms(1) have j: "j < length (all_teams g)"
      by (simp add: registry_agrees_def get_team_def)
    obtain r1 g1 where a1: "add_message_to_team msg j g = (r1, g1)"
      by (cases "add_message_to_team msg j g")
    from attempt_agrees [OF assms(1) j a1]
    have ag1: "registry_agrees g1" and n1: "length (all_teams g1) = length (all_teams g)"
      by simp_all
    note r = router_registry [OF gate Some a1]
    show ?thesis
    proof (cases "r1 = Inr False")
      case True
      with r assms(2) have "scan_teams msg [0..<length (all_teams g1)] g1 = (d, g')" by simp
      with ag1 show ?thesis by (intro scan_agrees [of g1 _ msg d g']) simp_all
    next
      case False
      with r assms(2) have "g' = g1" by (auto split: sum.splits bool.splits)
      with ag1 show ?thesis by simp
    qed
  qed
qed

subsection \<open>Exclusive membership\<close>

lemma join_agrees:
  assumes "registry_agrees g" and "i < length (all_teams g)" and "unclaimed g i u"
      and "join_team i u g = (b, g')"
  shows "registry_agrees g'"
  using assms agrees_add_member [OF assms(1-3)]
  by (auto simp: join_team_def split: if_splits)

lemma leave_agrees:
  assumes "registry_agrees g" and "i < length (all_teams g)"
      and "leave_team i u g = (b, g')"
  shows "registry_agrees g'"
  using assms agrees_remove_member [OF assms(1,2), of u]
  by (auto simp: leave_team_def split: if_splits)

lemma initial_agrees:
  assumes "list_all (\<lambda>t. members t = {}) (all_teams g)" and "all_users_dict g = Map.empty"
  shows "registry_agrees g"
proof -
  have "members (team_at g i) = {}" if "i < length (all_teams g)" for i
    using assms(1) that by (simp add: list_all_length team_at_def)
  with assms(2) show ?thesis by (auto simp: registry_agrees_def)
qed

lemma reachable_agrees: "reachable g \<Longrightarrow> registry_agrees g"
proof (induction rule: reachable.induct)
  case (initial g)
  then show ?case by (rule initial_agrees)
next
  case (router g msg d g')
  then show ?case by (auto intro: router_agrees)
next
  case (attempt g i msg r g')
  with attempt_agrees [of g i msg r g'] show ?case by simp
next
  case (blocked g i msg r g')
  with blocked_agrees [of g i msg r g'] show ?case by simp
next
  case (belongs g i msg r g')
  from belongs_lists [OF belongs.hyps(3)] belongs.IH show ?case
    by (simp add: lists_only_agrees)
next
  case (leave g i u b g')
  then show ?case by (auto intro: leave_agrees)
next
  case (guarded_add g i msg)
  then show ?case by (auto intro: add_message_agrees)
next
  case (guarded_join g i u b g')
  then show ?case by (auto intro: join_agrees)
qed

text \<open>
  C1, as amended. In every state reached from a state without members and with an empty
  registry by the router and its helper, by \<^verbatim>\<open>blocked_from_team\<close>, \<^verbatim>\<open>belongs_to_team\<close> and
  \<^verbatim>\<open>leave_team\<close>, and by \<^verbatim>\<open>add_message\<close> and \<^verbatim>\<open>join_team\<close> called for a user whom the
  registry records for no other team, the registry records a team for a user exactly
  when that team has the user in its members set; hence no user is a member of two
  teams.
\<close>

theorem exclusive_membership_invariant:
  assumes "reachable g"
  shows "(\<forall>u i. (all_users_dict g u = Some i)
               = (i < length (all_teams g) \<and> u \<in> members (team_at g i)))
       \<and> (\<forall>u i j. i < length (all_teams g) \<and> j < length (all_teams g)
               \<and> u \<in> members (team_at g i) \<and> u \<in> members (team_at g j) \<longrightarrow> i = j)"
proof -
  from reachable_agrees [OF assms]
  have inv: "(all_users_dict g u = Some i)
               = (i < length (all_teams g) \<and> u \<in> members (team_at g i))" for u i
    by (simp add: registry_agrees_def)
  have "i = j" if "i < length (all_teams g) \<and> j < length (all_teams g)
               \<and> u \<in> members (team_at g i) \<and> u \<in> members (team_at g j)" for u i j
  proof -
    from that inv [of u i] have "all_users_dict g u = Some i" by simp
    moreover from that inv [of u j] have "all_users_dict g u = Some j" by simp
    ultimately show ?thesis by simp
  qed
  with inv show ?thesis by blast
qed

lemma raw_add_message:
  "add_message 0 (left_message ''u'') example_global_data
   = example_global_data\<lparr>all_teams :=
        [(example_team ''A'')\<lparr>members := {''u''}, message_queue := [left_message ''u'']\<rparr>,
         example_team ''B''],
      all_users_dict := [''u'' \<mapsto> 0]\<rparr>"
proof -
  let ?g3 = "example_global_data\<lparr>all_teams :=
      [(example_team ''A'')\<lparr>message_queue := [left_message ''u'']\<rparr>, example_team ''B'']\<rparr>"
  have u1: "update_team example_global_data 0
      (\<lambda>t. t\<lparr>message_queue := deque_append (queue_length t) (message_queue t) (left_message ''u'')\<rparr>)
      = ?g3"
    by (simp add: update_team_first [OF example_teams(1)] example_team_fields deque_append_def)
  have a3: "all_teams ?g3
      = (example_team ''A'')\<lparr>message_queue := [left_message ''u'']\<rparr> # [example_team ''B'']"
    by simp
  have u2: "Users_add ''u'' 0
      (update_team ?g3 0 (\<lambda>t. t\<lparr>members := insert ''u'' (members t)\<rparr>))
      = example_global_data\<lparr>all_teams :=
        [(example_team ''A'')\<lparr>members := {''u''}, message_queue := [left_message ''u'']\<rparr>,
         example_team ''B''],
      all_users_dict := [''u'' \<mapsto> 0]\<rparr>"
    unfolding update_team_first [OF a3]
    by (simp add: example_team_fields Users_add_def example_global_data_def)
  show ?thesis
    by (simp add: add_message_def team_at_first [OF example_teams(1)] example_team_fields u1
        left_message_fields u2)
qed

text \<open>
  The claim as written fails. After \<^verbatim>\<open>add_message\<close> made the user a member of the first
  team, \<^verbatim>\<open>clear_team_members\<close> empties the members set and leaves the registry pointing to
  that team; and \<^verbatim>\<open>join_team\<close> on the second team, called directly, makes the user a
  member of two exclusive teams.
\<close>

theorem exclusive_membership_invariant_counterexample:
  "all_users_dict
     (snd (clear_team_members (add_message 0 (left_message ''u'') example_global_data))) ''u''
     = Some 0
   \<and> ''u'' \<notin> members (team_at
       (snd (clear_team_members (add_message 0 (left_message ''u'') example_global_data))) 0)
   \<and> ''u'' \<in> members (team_at
       (snd (join_team 1 ''u'' (add_message 0 (left_message ''u'') example_global_data))) 0)
   \<and> ''u'' \<in> members (team_at
       (snd (join_team 1 ''u'' (add_message 0 (left_message ''u'') example_global_data))) 1)
   \<and> exclusive (team_at
       (snd (join_team 1 ''u'' (add_message 0 (left_message ''u'') example_global_data))) 0)
   \<and> exclusive (team_at
       (snd (join_team 1 ''u'' (add_message 0 (left_message ''u'') example_global_data))) 1)"
proof -
  let ?g = "example_global_data\<lparr>all_teams :=
        [(example_team ''A'')\<lparr>members := {''u''}, message_queue := [left_message ''u'']\<rparr>,
         example_team ''B''],
      all_users_dict := [''u'' \<mapsto> 0]\<rparr>"
  have c: "all_users_dict (snd (clear_team_members ?g)) ''u'' = Some 0
      \<and> ''u'' \<notin> members (team_at (snd (clear_team_members ?g)) 0)"
    by (simp add: clear_team_members_def Let_def example_team_fields team_at_def
        split: option.splits)
  have j: "''u'' \<in> members (team_at (snd (join_team 1 ''u'' ?g)) 0)
      \<and> ''u'' \<in> members (team_at (snd (join_team 1 ''u'' ?g)) 1)
      \<and> exclusive (team_at (snd (join_team 1 ''u'' ?g)) 0)
      \<and> exclusive (team_at (snd (join_team 1 ''u'' ?g)) 1)"
    by (simp add: join_team_def team_at_def update_team_def Users_add_def example_team_fields)
  from c j show ?thesis unfolding raw_add_message by simp
qed

theorem exclusive_membership_invariant_witness:
  "reachable joined_global_data
   \<and> all_users_dict joined_global_data ''u'' = Some 0
   \<and> ''u'' \<in> members (team_at joined_global_data 0)
   \<and> ''u'' \<notin> members (team_at joined_global_data 1)"
proof -
  have "reachable example_global_data"
    by (rule reachable.initial) (simp_all add: example_teams example_team_fields)
  from reachable.router [OF this first_delivery]
  have r: "reachable joined_global_data" .
  note inv = exclusive_membership_invariant [OF r]
  have u: "all_users_dict joined_global_data ''u'' = Some 0"
    by (simp add: joined_global_data_def)
  have n: "length (all_teams joined_global_data) = 2"
    by (simp add: joined_global_data_def)
  from inv u n have m0: "''u'' \<in> members (team_at joined_global_data 0)" by simp
  from inv have "1 < length (all_teams joined_global_data)
      \<and> ''u'' \<in> members (team_at joined_global_data 1)
      \<longrightarrow> all_users_dict joined_global_data ''u'' = Some 1" by blast
  with u n have m1: "''u'' \<notin> members (team_at joined_global_data 1)" by auto
  from r u m0 m1 show ?thesis by simp
qed

end
